(* ===== verification/Slash_Prelude.thy ===== *)
theory Slash_Prelude
  imports Main "HOL-Library.Word" "HOL-Library.List_Lexorder" "HOL-Library.Sublist"
begin

text \<open>
  Shared vocabulary of the slashing development (x/plugin/slashing_plugin.go):
  the byte-level types of keys, hashes, node identities and addresses, the error
  values every fallible operation returns, the process-wide consensus configuration
  (xcom.ConsensusSize, xcom.ConsValidatorNum, xcom.ElectionDistance) and the
  election-point test xutil.IsElection that the plugin calls, the Go conversion of
  a string literal to bytes, the big-endian encoding utils.Uint64ToBytes used in
  the double-sign result key, and discover.BytesID.  The collections
  \<open>slash_keys\<close> and \<open>slash_codec\<close> gather the facts about keys and codecs
  that the component theories use as simplification rules.
\<close>

named_theorems slash_keys "facts about the persisted key layouts"
named_theorems slash_codec "facts about byte encodings"

section \<open>Bytes\<close>

type_synonym byte = "8 word"
type_synonym bytes = "byte list"

text \<open>common.Hash (32 bytes), discover.NodeID (64 bytes) and common.Address
  (20 bytes) are fixed-size byte arrays in Go; here they are byte lists, and the
  lengths are carried by the well-formedness predicates below.\<close>

type_synonym hash = bytes
type_synonym node_id = bytes
type_synonym address = bytes

definition node_id_len :: nat where
  "node_id_len = 64"

definition address_len :: nat where
  "address_len = 20"

text \<open>Go's conversion \<open>[]byte("...")\<close> of an ASCII string literal.\<close>

definition str_bytes :: "string \<Rightarrow> bytes" where
  "str_bytes s = map of_char s"

section \<open>Errors\<close>

text \<open>The errors of the RLP stream decoder that a uint16 decode can raise.\<close>

datatype rlp_error =
    RlpEOF
  | RlpCanonInt
  | RlpCanonSize
  | RlpUintOverflow
  | RlpExpectedString
  | RlpValueTooLarge
  | RlpMoreThanOneValue

text \<open>
  The Go \<open>error\<close> values that reach the plugin's callers.  \<open>ErrNotFound\<close> is
  snapshotdb.ErrNotFound, \<open>ErrIO k\<close> a store failure on key \<open>k\<close>,
  \<open>ErrNodeIdLength n\<close> the failure of discover.BytesID on \<open>n\<close> bytes,
  \<open>ErrPanic\<close> a Go run-time panic (nil function call, slice out of range),
  \<open>ErrBiz\<close> a common.NewBizError and \<open>ErrPlain\<close> an errors.New value
  (also the form in which collaborators' errors are passed through).
\<close>

datatype error =
    ErrNotFound
  | ErrIO bytes
  | ErrRlp rlp_error
  | ErrNodeIdLength nat
  | ErrPanic string
  | ErrBiz string
  | ErrPlain string

text \<open>An operation that mutates shared state in place returns the state it leaves
  behind together with the error it reports, since Go does not roll back what was
  written before the failing call.\<close>

type_synonym 's outcome = "'s \<times> error option"

section \<open>Consensus configuration\<close>

text \<open>xcom.ConsensusSize (blocks per consensus round), xcom.ConsValidatorNum
  (validators per round) and xcom.ElectionDistance (blocks from the election point
  to the round boundary).  The plugin reads them as process-wide constants.\<close>

record xcom_config =
  consensus_size :: "64 word"
  cons_validator_num :: "64 word"
  election_distance :: "64 word"

definition default_config :: xcom_config where
  "default_config = \<lparr>consensus_size = 250, cons_validator_num = 25, election_distance = 20\<rparr>"

text \<open>The constants are positive (Go panics on a division by zero) and the
  election point lies inside the round.\<close>

definition cfg_ok :: "xcom_config \<Rightarrow> bool" where
  "cfg_ok c \<longleftrightarrow> 0 < consensus_size c \<and> 0 < cons_validator_num c
     \<and> election_distance c < consensus_size c"

text \<open>xutil.IsElection: the block \<open>ElectionDistance\<close> blocks before a round boundary.\<close>

definition IsElection :: "xcom_config \<Rightarrow> 64 word \<Rightarrow> bool" where
  "IsElection c n \<longleftrightarrow> (n + election_distance c) mod consensus_size c = 0"

section \<open>Byte encodings\<close>

text \<open>utils.Uint64ToBytes: binary.BigEndian.PutUint64 into a fresh 8-byte slice.\<close>

definition Uint64ToBytes :: "64 word \<Rightarrow> bytes" where
  "Uint64ToBytes w =
     [ucast (drop_bit 56 w), ucast (drop_bit 48 w), ucast (drop_bit 40 w), ucast (drop_bit 32 w),
      ucast (drop_bit 24 w), ucast (drop_bit 16 w), ucast (drop_bit 8 w), ucast w]"

text \<open>discover.BytesID: a node identity from exactly 64 bytes.\<close>

definition BytesID :: "bytes \<Rightarrow> error + node_id" where
  "BytesID b = (if length b = node_id_len then Inr b else Inl (ErrNodeIdLength (length b)))"

section \<open>Generic lemmas\<close>

lemma Uint64ToBytes_length [slash_codec, simp]: "length (Uint64ToBytes w) = 8"
  by (simp add: Uint64ToBytes_def)

lemma Uint64ToBytes_nth:
  "i < 8 \<Longrightarrow> Uint64ToBytes w ! i = ucast (drop_bit (8 * (7 - i)) w)"
  by (auto simp: Uint64ToBytes_def less_Suc_eq numeral_eq_Suc)

text \<open>Bit \<open>n\<close> of the word is bit \<open>n mod 8\<close> of byte \<open>7 - n div 8\<close>, so equal
  encodings have equal bits.\<close>

lemma Uint64ToBytes_inj [slash_codec]:
  assumes "Uint64ToBytes a = Uint64ToBytes b"
  shows "a = b"
proof (rule bit_word_eqI)
  fix n
  assume n: "n < LENGTH(64)"
  have i: "7 - n div 8 < 8" "7 - (7 - n div 8) = n div 8"
    using n by simp_all
  have "Uint64ToBytes a ! (7 - n div 8) = Uint64ToBytes b ! (7 - n div 8)"
    using assms by simp
  then have "(ucast (drop_bit (8 * (n div 8)) a) :: byte) = ucast (drop_bit (8 * (n div 8)) b)"
    using i by (simp add: Uint64ToBytes_nth)
  then have "bit (ucast (drop_bit (8 * (n div 8)) a) :: byte) (n mod 8)
           = bit (ucast (drop_bit (8 * (n div 8)) b) :: byte) (n mod 8)"
    by simp
  then show "bit a n = bit b n"
    by (simp add: bit_ucast_iff bit_drop_bit_eq)
qed

lemma Uint64ToBytes_eq_iff [slash_codec, simp]:
  "Uint64ToBytes a = Uint64ToBytes b \<longleftrightarrow> a = b"
  using Uint64ToBytes_inj by blast

text \<open>Sign extension of an int32 to a uint64 (Go's \<open>uint64(etype)\<close>) loses nothing.\<close>

lemma scast_32_64_inj [slash_codec]:
  assumes "(scast (a :: 32 word) :: 64 word) = scast (b :: 32 word)"
  shows "a = b"
proof (rule bit_word_eqI)
  fix n
  assume "n < LENGTH(32)"
  then have "bit (scast a :: 64 word) n = bit a n" "bit (scast b :: 64 word) n = bit b n"
    by (simp_all add: bit_signed_iff)
  with assms show "bit a n = bit b n" by simp
qed

lemma BytesID_Inr [slash_keys]: "BytesID b = Inr n \<longleftrightarrow> length b = node_id_len \<and> n = b"
  by (auto simp: BytesID_def)

lemma prefix_append_same [slash_keys]: "prefix p (p @ k)"
  by simp

lemma append_prefix_eq_iff [slash_keys]: "p @ a = p @ b \<longleftrightarrow> a = b"
  by simp

lemma word_pos_uint_ge1: "0 < (r :: 'a::len word) \<Longrightarrow> 1 \<le> uint r"
proof -
  assume "0 < r"
  then have "uint (0 :: 'a word) < uint r" by (simp only: word_less_def)
  then show ?thesis by simp
qed

end
