(* ===== verification/Rlp_Uint16.thy ===== *)
theory Rlp_Uint16
  imports Slash_Prelude
begin

text \<open>
  The round counters are stored as the RLP encoding of a Go \<open>uint16\<close>
  (rlp.EncodeToBytes and rlp.DecodeBytes in setBlockAmount, getBlockAmount and
  GetPreNodeAmount).  The RLP package is outside the plugin's sources; this theory
  models its behaviour on \<open>uint16\<close> values: the encoder (writeUint) and the
  decoder (Stream.Kind, Stream.uint and the trailing-data check of DecodeBytes).
  The two round-trip theorems say that decoding inverts encoding and that the
  decoder accepts only canonical encodings, so a stored counter has exactly one
  byte representation.
\<close>

section \<open>Encoder and decoder\<close>

definition rlp_encode_u16 :: "16 word \<Rightarrow> bytes" where
  "rlp_encode_u16 i =
     (if i = 0 then [0x80]
      else if i < 128 then [ucast i]
      else if i < 256 then [0x81, ucast i]
      else [0x82, ucast (drop_bit 8 i), ucast i])"

text \<open>The big-endian value of a byte string (Stream.readUint).\<close>

definition be_value :: "bytes \<Rightarrow> nat" where
  "be_value bs = foldl (\<lambda>acc b. acc * 256 + unat b) 0 bs"

text \<open>
  A single byte below 0x80 is its own value (0x00 is not canonical); a short string
  header 0x80+n is followed by the n value bytes, at most two for a uint16, without
  a leading zero and not below 128 when a single byte would have done; a long string
  header is never a valid uint16; a list header is rejected.  Bytes left after the
  value are an error.
\<close>

definition rlp_decode_u16 :: "bytes \<Rightarrow> rlp_error + 16 word" where
  "rlp_decode_u16 bs =
     (case bs of
        [] \<Rightarrow> Inl RlpEOF
      | b # rest \<Rightarrow>
          (if b < 0x80 then
             (if b = 0 then Inl RlpCanonInt
              else if rest \<noteq> [] then Inl RlpMoreThanOneValue
              else Inr (ucast b))
           else if b < 0xB8 then
             (let size = unat b - 0x80 in
              if length rest < size then Inl RlpValueTooLarge
              else if 2 < size then Inl RlpUintOverflow
              else if size = 2 \<and> hd rest = 0 then Inl RlpCanonInt
              else if 0 < size \<and> be_value (take size rest) < 128 then Inl RlpCanonSize
              else if size < length rest then Inl RlpMoreThanOneValue
              else Inr (of_nat (be_value (take size rest))))
           else if b < 0xC0 then
             (let sl = unat b - 0xB7 in
              if length rest < sl then Inl RlpEOF
              else
                (let size = be_value (take sl rest) in
                 if (1 < sl \<and> hd rest = 0) \<or> size < 56 then Inl RlpCanonSize
                 else if length rest - sl < size then Inl RlpValueTooLarge
                 else Inl RlpUintOverflow))
           else Inl RlpExpectedString))"

section \<open>Byte arithmetic\<close>

lemma be_value_simps [slash_codec, simp]:
  "be_value [] = 0"
  "be_value [a] = unat a"
  "be_value [a, b] = unat a * 256 + unat b"
  by (simp_all add: be_value_def)

lemma unat_byte_lt: "unat (b :: byte) < 256"
  using unsigned_less[of b] by simp

lemma unat_u16_lt: "unat (v :: 16 word) < 65536"
  using unsigned_less[of v] by simp

lemma unat_ucast_lo [slash_codec]: "unat (ucast (v :: 16 word) :: byte) = unat v mod 256"
  by (simp add: unsigned_ucast_eq take_bit_eq_mod)

lemma unat_ucast_hi [slash_codec]:
  "unat (ucast (drop_bit 8 (v :: 16 word)) :: byte) = unat v div 256"
  using unat_u16_lt[of v]
  by (simp add: unsigned_ucast_eq unat_drop_bit_eq drop_bit_eq_div take_bit_eq_mod unat_div_distrib)

lemma unat_ucast_byte [slash_codec]: "unat (ucast (b :: byte) :: 16 word) = unat b"
  using unat_byte_lt[of b] by (simp add: unsigned_ucast_eq take_bit_eq_mod)

lemma byte_eq_unat: "(a :: byte) = b \<longleftrightarrow> unat a = unat b"
  by (simp add: word_unat_eq_iff)

lemma u16_eq_unat: "(a :: 16 word) = b \<longleftrightarrow> unat a = unat b"
  by (simp add: word_unat_eq_iff)

lemma unat_of_nat_u16: "n < 65536 \<Longrightarrow> unat (of_nat n :: 16 word) = n"
  by (simp add: unat_of_nat)

section \<open>The decoder on the four canonical shapes\<close>

lemma rlp_decode_u16_single [slash_codec]:
  "0 < b \<Longrightarrow> b < 0x80 \<Longrightarrow> rlp_decode_u16 [b] = Inr (ucast b)"
  by (simp add: rlp_decode_u16_def)

lemma rlp_decode_u16_zero [slash_codec]: "rlp_decode_u16 [0x80] = Inr 0"
  by (simp add: rlp_decode_u16_def)

lemma rlp_decode_u16_one [slash_codec]:
  "128 \<le> unat c \<Longrightarrow> rlp_decode_u16 [0x81, c] = Inr (of_nat (unat c))"
  by (simp add: rlp_decode_u16_def)

lemma rlp_decode_u16_two [slash_codec]:
  assumes "a \<noteq> 0"
  shows "rlp_decode_u16 [0x82, a, c] = Inr (of_nat (unat a * 256 + unat c))"
proof -
  have "1 \<le> unat a" using assms by (simp add: unat_gt_0 Suc_le_eq)
  then have "\<not> unat a * 256 + unat c < 128" by linarith
  with assms show ?thesis by (simp add: rlp_decode_u16_def)
qed

section \<open>Round trips\<close>

text \<open>Decoding the stored bytes of a counter gives back the counter that
  setBlockAmount encoded, for every uint16 value.\<close>

theorem rlp_decode_encode_u16: "rlp_decode_u16 (rlp_encode_u16 v) = Inr v"
proof -
  consider (z) "v = 0" | (s) "v \<noteq> 0" "unat v < 128" | (m) "128 \<le> unat v" "unat v < 256"
    | (l) "256 \<le> unat v"
    by (cases "v = 0"; cases "unat v < 128"; cases "unat v < 256") auto
  then show ?thesis
  proof cases
    case z
    then show ?thesis by (simp add: rlp_encode_u16_def rlp_decode_u16_zero)
  next
    case s
    then have "v < 128" "ucast v < (0x80 :: byte)" "0 < (ucast v :: byte)"
      by (simp_all add: word_less_nat_alt unat_ucast_lo unat_gt_0)
    then have "rlp_decode_u16 [ucast v] = Inr (ucast (ucast v :: byte))"
      by (simp add: rlp_decode_u16_single)
    also have "ucast (ucast v :: byte) = v"
      using s by (simp add: u16_eq_unat unat_ucast_byte unat_ucast_lo)
    finally show ?thesis using s \<open>v < 128\<close> by (simp add: rlp_encode_u16_def)
  next
    case m
    then have "\<not> v < 128" "v < 256" "v \<noteq> 0"
      by (auto simp: word_less_nat_alt)
    have "rlp_decode_u16 [0x81, ucast v] = Inr (of_nat (unat (ucast v :: byte)))"
      using m by (simp only: rlp_decode_u16_one unat_ucast_lo mod_less)
    also have "of_nat (unat (ucast v :: byte)) = v"
      using m by (simp only: unat_ucast_lo mod_less) simp
    finally show ?thesis using \<open>\<not> v < 128\<close> \<open>v < 256\<close> \<open>v \<noteq> 0\<close>
      by (simp add: rlp_encode_u16_def)
  next
    case l
    then have "\<not> v < 128" "\<not> v < 256" "v \<noteq> 0"
      by (auto simp: word_less_nat_alt)
    have hi: "(ucast (drop_bit 8 v) :: byte) \<noteq> 0"
      using l by (simp only: byte_eq_unat unat_ucast_hi) simp
    have "unat (ucast (drop_bit 8 v) :: byte) * 256 + unat (ucast v :: byte) = unat v"
      by (simp only: unat_ucast_hi, simp only: unat_ucast_lo div_mult_mod_eq)
    then have "rlp_decode_u16 [0x82, ucast (drop_bit 8 v), ucast v] = Inr v"
      using rlp_decode_u16_two [OF hi, of "ucast v"] by simp
    then show ?thesis using \<open>\<not> v < 128\<close> \<open>\<not> v < 256\<close> \<open>v \<noteq> 0\<close>
      by (simp add: rlp_encode_u16_def)
  qed
qed

text \<open>A successful decode saw one of the four shapes the encoder writes.\<close>

lemma rlp_decode_u16_InrD:
  assumes "rlp_decode_u16 bs = Inr v"
  shows "(\<exists>b. bs = [b] \<and> 0 < b \<and> b < 0x80 \<and> v = ucast b)
       \<or> (bs = [0x80] \<and> v = 0)
       \<or> (\<exists>c. bs = [0x81, c] \<and> 128 \<le> unat c \<and> v = of_nat (unat c))
       \<or> (\<exists>a c. bs = [0x82, a, c] \<and> a \<noteq> 0 \<and> v = of_nat (unat a * 256 + unat c))"
proof (cases bs)
  case Nil
  with assms show ?thesis by (simp add: rlp_decode_u16_def)
next
  case (Cons b rest)
  show ?thesis
  proof (cases "b < 0x80")
    case True
    with assms Cons show ?thesis
      by (auto simp: rlp_decode_u16_def word_neq_0_conv split: if_splits)
  next
    case False
    then have ge: "128 \<le> unat b" by (simp add: word_less_nat_alt not_less)
    have lt: "b < 0xB8"
      using assms Cons False by (auto simp: rlp_decode_u16_def Let_def split: if_splits)
    define size where "size = unat b - 128"
    have dec: "length rest = size" "size \<le> 2" "size = 2 \<longrightarrow> hd rest \<noteq> 0"
      "0 < size \<longrightarrow> \<not> be_value (take size rest) < 128"
      "v = of_nat (be_value (take size rest))"
      using assms Cons False lt by (auto simp: rlp_decode_u16_def Let_def size_def split: if_splits)
    have b: "b = of_nat (128 + size)"
      using ge dec(2) unat_byte_lt[of b] by (simp add: size_def byte_eq_unat unat_of_nat)
    consider "size = 0" | "size = 1" | "size = 2" using dec(2) by linarith
    then show ?thesis
    proof cases
      case 1
      then show ?thesis using dec b Cons by simp
    next
      case 2
      then obtain c where "rest = [c]" using dec(1) by (auto simp: length_Suc_conv)
      then show ?thesis using dec b Cons 2 by simp
    next
      case 3
      then obtain a c where "rest = [a, c]" using dec(1) by (auto simp: length_Suc_conv numeral_eq_Suc)
      then show ?thesis using dec b Cons 3 by simp
    qed
  qed
qed

text \<open>The decoder accepts only the encoder's output: whatever bytes decode to a
  counter are exactly the canonical encoding of that counter.\<close>

theorem rlp_encode_decode_u16:
  assumes "rlp_decode_u16 bs = Inr v"
  shows "rlp_encode_u16 v = bs"
  using rlp_decode_u16_InrD [OF assms]
proof (elim disjE exE conjE)
  fix b
  assume bs: "bs = [b]" and b: "0 < b" "b < 0x80" and v: "v = ucast b"
  have "unat v = unat b" using v by (simp add: unat_ucast_byte)
  moreover have "unat b < 128" "0 < unat b" using b by (simp_all add: word_less_nat_alt unat_gt_0)
  ultimately have uv: "0 < unat v" "unat v < 128" by simp_all
  then have "v \<noteq> 0" "v < 128" by (simp_all add: word_less_nat_alt unat_gt_0)
  moreover have "ucast v = b"
    using uv \<open>unat v = unat b\<close> by (simp only: byte_eq_unat unat_ucast_lo) simp
  ultimately show ?thesis using bs by (simp add: rlp_encode_u16_def)
next
  assume "bs = [0x80]" "v = 0"
  then show ?thesis by (simp add: rlp_encode_u16_def)
next
  fix c
  assume bs: "bs = [0x81, c]" and c: "128 \<le> unat c" and v: "v = of_nat (unat c)"
  have uv: "unat v = unat c" using v by (simp add: unat_ucast_byte)
  then have "v \<noteq> 0" "\<not> v < 128" "v < 256" "ucast v = c"
    using c unat_byte_lt[of c] by (auto simp: word_less_nat_alt byte_eq_unat unat_ucast_lo)
  then show ?thesis using bs by (simp add: rlp_encode_u16_def)
next
  fix a c
  assume bs: "bs = [0x82, a, c]" and a: "a \<noteq> 0" and v: "v = of_nat (unat a * 256 + unat c)"
  have "unat a * 256 + unat c < 65536"
    using unat_byte_lt[of a] unat_byte_lt[of c] by linarith
  then have uv: "unat v = unat a * 256 + unat c" by (simp only: v unat_of_nat) simp
  have "1 \<le> unat a" using a by (simp add: unat_gt_0 Suc_le_eq)
  then have ge: "256 \<le> unat v" using uv by linarith
  have hi: "ucast (drop_bit 8 v) = a"
    using uv unat_byte_lt[of c] by (simp only: byte_eq_unat unat_ucast_hi)
  have lo: "ucast v = c"
    using uv unat_byte_lt[of c] by (simp only: byte_eq_unat unat_ucast_lo) simp
  have "v \<noteq> 0" "\<not> v < 128" "\<not> v < 256"
    using ge by (auto simp: word_less_nat_alt)
  then show ?thesis using bs hi lo by (simp add: rlp_encode_u16_def)
qed

end
