(* ===== verification/Snapshot_Store.thy ===== *)
theory Snapshot_Store
  imports Slash_Prelude
begin

text \<open>
  The snapshot database (core/snapshotdb) that the plugin keeps in \<open>sp.db\<close>, at the
  interface the plugin uses: \<open>Get(blockHash, key)\<close> reads through the uncommitted
  overlay of a block into the committed base layer; \<open>PutBaseDB\<close>,
  \<open>DelBaseDB\<close> write the base layer directly; \<open>WalkBaseDB(prefix, f)\<close> hands the
  callback an iterator over the base-layer entries under a prefix, in key order, taken
  from a snapshot at the start of the walk.  The package is outside the plugin's
  sources, so this theory is modelled from the specification (\<section>5, \<section>6).

  The base layer is a list of key/value pairs sorted by key with distinct keys, which
  is what a leveldb iterator presents.  The overlay of a block is a map from keys to
  \<open>Some (Some v)\<close> (written on that branch), \<open>Some None\<close> (deleted on that
  branch) or \<open>None\<close> (not touched: read the base layer).  \<open>io_fault k\<close> says
  that every store operation on key \<open>k\<close> fails with an I/O error; it makes each
  \<open>if err != nil\<close> branch of the plugin reachable in the model.
\<close>

named_theorems kv_simps "behaviour of the store operations"

record snapdb =
  base_db :: "(bytes \<times> bytes) list"
  branch_db :: "hash \<Rightarrow> bytes \<Rightarrow> bytes option option"
  io_fault :: "bytes \<Rightarrow> bool"

section \<open>The sorted key/value list of the base layer\<close>

definition kv_del :: "bytes \<Rightarrow> (bytes \<times> bytes) list \<Rightarrow> (bytes \<times> bytes) list" where
  "kv_del k kvs = filter (\<lambda>e. fst e \<noteq> k) kvs"

definition kv_put :: "bytes \<Rightarrow> bytes \<Rightarrow> (bytes \<times> bytes) list \<Rightarrow> (bytes \<times> bytes) list" where
  "kv_put k v kvs = insort_key fst (k, v) (kv_del k kvs)"

definition kv_wf :: "(bytes \<times> bytes) list \<Rightarrow> bool" where
  "kv_wf kvs \<longleftrightarrow> sorted (map fst kvs) \<and> distinct (map fst kvs)"

section \<open>Store operations\<close>

text \<open>snapshotdb.DB.Get: the block's overlay first, then the base layer;
  \<open>ErrNotFound\<close> when neither holds the key.\<close>

definition db_Get :: "snapdb \<Rightarrow> hash \<Rightarrow> bytes \<Rightarrow> error + bytes" where
  "db_Get db h k =
     (if io_fault db k then Inl (ErrIO k)
      else case branch_db db h k of
        Some (Some v) \<Rightarrow> Inr v
      | Some None \<Rightarrow> Inl ErrNotFound
      | None \<Rightarrow> (case map_of (base_db db) k of Some v \<Rightarrow> Inr v | None \<Rightarrow> Inl ErrNotFound))"

definition db_PutBaseDB :: "snapdb \<Rightarrow> bytes \<Rightarrow> bytes \<Rightarrow> error + snapdb" where
  "db_PutBaseDB db k v =
     (if io_fault db k then Inl (ErrIO k) else Inr (db\<lparr>base_db := kv_put k v (base_db db)\<rparr>))"

definition db_DelBaseDB :: "snapdb \<Rightarrow> bytes \<Rightarrow> error + snapdb" where
  "db_DelBaseDB db k =
     (if io_fault db k then Inl (ErrIO k) else Inr (db\<lparr>base_db := kv_del k (base_db db)\<rparr>))"

text \<open>The entries a \<open>WalkBaseDB(util.BytesPrefix(p), f)\<close> iterator yields.\<close>

definition db_WalkBaseDB :: "snapdb \<Rightarrow> bytes \<Rightarrow> (bytes \<times> bytes) list" where
  "db_WalkBaseDB db p = filter (\<lambda>e. prefix p (fst e)) (base_db db)"

text \<open>The committed value of a key, and the absence of I/O faults.\<close>

definition base_lookup :: "snapdb \<Rightarrow> bytes \<Rightarrow> bytes option" where
  "base_lookup db k = map_of (base_db db) k"

definition no_fault :: "snapdb \<Rightarrow> bool" where
  "no_fault db \<longleftrightarrow> (\<forall>k. \<not> io_fault db k)"

text \<open>An empty store without faults, the starting point of the examples.\<close>

definition empty_db :: snapdb where
  "empty_db = \<lparr>base_db = [], branch_db = (\<lambda>_ _. None), io_fault = (\<lambda>_. False)\<rparr>"

section \<open>Lemmas on the sorted list\<close>

lemma map_of_insort_key_fresh:
  "k \<notin> fst ` set xs \<Longrightarrow> map_of (insort_key fst (k, v) xs) = (map_of xs)(k \<mapsto> v)"
proof (induction xs)
  case Nil
  then show ?case by simp
next
  case (Cons y ys)
  then show ?case by (cases y) (auto simp: fun_upd_twist)
qed

lemma distinct_insort_key_fst:
  "k \<notin> fst ` set xs \<Longrightarrow> distinct (map fst xs) \<Longrightarrow>
   distinct (map fst (insort_key fst (k, v) xs))"
  by (induction xs) (auto simp: set_insort_key)

lemma kv_del_lookup [kv_simps]: "map_of (kv_del k kvs) = (map_of kvs)(k := None)"
  by (induction kvs) (auto simp: kv_del_def)

lemma kv_del_fresh: "k \<notin> fst ` set (kv_del k kvs)"
  by (auto simp: kv_del_def)

lemma kv_put_lookup [kv_simps]: "map_of (kv_put k v kvs) = (map_of kvs)(k \<mapsto> v)"
  by (simp add: kv_put_def map_of_insort_key_fresh [OF kv_del_fresh] kv_del_lookup)

lemma kv_wf_del [kv_simps]: "kv_wf kvs \<Longrightarrow> kv_wf (kv_del k kvs)"
  by (auto simp: kv_wf_def kv_del_def sorted_filter distinct_map_filter)

lemma kv_wf_put [kv_simps]: "kv_wf kvs \<Longrightarrow> kv_wf (kv_put k v kvs)"
proof -
  assume "kv_wf kvs"
  then have "kv_wf (kv_del k kvs)" by (rule kv_wf_del)
  then show ?thesis
    by (simp add: kv_wf_def kv_put_def sorted_insort_key distinct_insort_key_fst [OF kv_del_fresh])
qed

lemma kv_wf_map_of_eq:
  "kv_wf kvs \<Longrightarrow> (k, v) \<in> set kvs \<longleftrightarrow> map_of kvs k = Some v"
  by (simp add: kv_wf_def)

section \<open>Behaviour of the store operations\<close>

lemma db_PutBaseDB_Inr [kv_simps]:
  "db_PutBaseDB db k v = Inr db' \<longleftrightarrow>
     \<not> io_fault db k \<and> db' = db\<lparr>base_db := kv_put k v (base_db db)\<rparr>"
  by (auto simp: db_PutBaseDB_def)

lemma db_DelBaseDB_Inr [kv_simps]:
  "db_DelBaseDB db k = Inr db' \<longleftrightarrow>
     \<not> io_fault db k \<and> db' = db\<lparr>base_db := kv_del k (base_db db)\<rparr>"
  by (auto simp: db_DelBaseDB_def)

lemma db_PutBaseDB_no_fault [kv_simps]:
  "\<not> io_fault db k \<Longrightarrow> db_PutBaseDB db k v = Inr (db\<lparr>base_db := kv_put k v (base_db db)\<rparr>)"
  by (simp add: db_PutBaseDB_def)

lemma db_DelBaseDB_no_fault [kv_simps]:
  "\<not> io_fault db k \<Longrightarrow> db_DelBaseDB db k = Inr (db\<lparr>base_db := kv_del k (base_db db)\<rparr>)"
  by (simp add: db_DelBaseDB_def)

lemma db_Get_clean [kv_simps]:
  "\<not> io_fault db k \<Longrightarrow> branch_db db h k = None \<Longrightarrow>
   db_Get db h k = (case base_lookup db k of Some v \<Rightarrow> Inr v | None \<Rightarrow> Inl ErrNotFound)"
  by (simp add: db_Get_def base_lookup_def)

lemma db_WalkBaseDB_set:
  "set (db_WalkBaseDB db p) = {e \<in> set (base_db db). prefix p (fst e)}"
  by (auto simp: db_WalkBaseDB_def)

lemma db_WalkBaseDB_lookup:
  "kv_wf (base_db db) \<Longrightarrow>
   (k, v) \<in> set (db_WalkBaseDB db p) \<longleftrightarrow> prefix p k \<and> base_lookup db k = Some v"
  by (auto simp: db_WalkBaseDB_def base_lookup_def kv_wf_def)

lemma db_WalkBaseDB_distinct:
  "kv_wf (base_db db) \<Longrightarrow> distinct (map fst (db_WalkBaseDB db p))"
  by (simp add: db_WalkBaseDB_def kv_wf_def distinct_map_filter)

lemma kv_list_all_del [kv_simps]: "list_all P kvs \<Longrightarrow> list_all P (kv_del k kvs)"
  by (simp add: kv_del_def list_all_iff)

lemma kv_list_all_put [kv_simps]:
  "list_all P kvs \<Longrightarrow> P (k, v) \<Longrightarrow> list_all P (kv_put k v kvs)"
  by (simp add: kv_put_def kv_del_def list_all_iff set_insort_key)

lemma base_lookup_put [kv_simps]:
  "base_lookup (db\<lparr>base_db := kv_put k v (base_db db)\<rparr>) = (base_lookup db)(k \<mapsto> v)"
  by (simp add: fun_eq_iff base_lookup_def kv_put_lookup)

lemma base_lookup_del [kv_simps]:
  "base_lookup (db\<lparr>base_db := kv_del k (base_db db)\<rparr>) = (base_lookup db)(k := None)"
  by (simp add: fun_eq_iff base_lookup_def kv_del_lookup)

lemma base_lookup_wf_mem:
  "kv_wf (base_db db) \<Longrightarrow> base_lookup db k = Some v \<longleftrightarrow> (k, v) \<in> set (base_db db)"
  by (simp add: base_lookup_def kv_wf_def)

lemma map_of_filter_fst:
  "map_of (filter (\<lambda>e. P (fst e)) xs) k = (if P k then map_of xs k else None)"
  by (induction xs) auto

lemma db_WalkBaseDB_map_of:
  "map_of (db_WalkBaseDB db p) k = (if prefix p k then base_lookup db k else None)"
  by (simp add: db_WalkBaseDB_def base_lookup_def map_of_filter_fst)

lemma db_WalkBaseDB_keys:
  "k \<in> fst ` set (db_WalkBaseDB db p) \<longleftrightarrow> prefix p k \<and> base_lookup db k \<noteq> None"
proof -
  have "k \<in> fst ` set (db_WalkBaseDB db p) \<longleftrightarrow> map_of (db_WalkBaseDB db p) k \<noteq> None"
    by (simp add: map_of_eq_None_iff)
  then show ?thesis by (simp add: db_WalkBaseDB_map_of)
qed

end
