(* ===== verification/Round_Counter.thy ===== *)
theory Round_Counter
  imports Rlp_Uint16 Snapshot_Store
begin

text \<open>
  The round counter store of slashing_plugin.go: the key prefixes
  \<open>curAbnormalPrefix\<close>/\<open>preAbnormalPrefix\<close> and the key builders \<open>curKey\<close>,
  \<open>preKey\<close>, \<open>getNodeId\<close>; the producer recovery \<open>parseNodeId\<close>; and the
  counter read \<open>getBlockAmount\<close> and increment \<open>setBlockAmount\<close>.  A counter
  is the RLP encoding of a uint16 under \<open>"SlashCb" ++ nodeId\<close> (current round) or
  \<open>"SlashPb" ++ nodeId\<close> (previous round) in the base layer of the snapshot store.

  \<open>counters_wf\<close> is the store invariant (sorted distinct base layer; every counter
  key is a prefix and a 64-byte node identity and holds a decodable counter);
  \<open>cur_counts\<close> and \<open>pre_counts\<close> abstract the store to the two windows of
  per-node counts.  The lemmas show that \<open>setBlockAmount\<close> implements
  "current count of the producer := count + 1 (mod 2^16)" on that abstraction, keeps
  the invariant, and reports each failure of its collaborators unchanged.
\<close>

section \<open>Keys\<close>

definition curAbnormalPrefix :: bytes where
  "curAbnormalPrefix = str_bytes ''SlashCb''"

definition preAbnormalPrefix :: bytes where
  "preAbnormalPrefix = str_bytes ''SlashPb''"

definition curKey :: "bytes \<Rightarrow> bytes" where
  "curKey key = curAbnormalPrefix @ key"

definition preKey :: "bytes \<Rightarrow> bytes" where
  "preKey key = preAbnormalPrefix @ key"

text \<open>\<open>key[len(prefix):]\<close> panics on a key shorter than the prefix.\<close>

definition getNodeId :: "bytes \<Rightarrow> bytes \<Rightarrow> error + node_id" where
  "getNodeId pfx key =
     (if length key < length pfx then Inl (ErrPanic ''slice bounds out of range'')
      else BytesID (drop (length pfx) key))"

section \<open>Producer recovery\<close>

text \<open>The header fields the plugin reads.  The signature recovery
  (crypto.SigToPub followed by discover.PubkeyID) is a collaborator.\<close>

record header =
  hdr_number :: "64 word"
  hdr_extra :: bytes
  hdr_seal_hash :: hash

type_synonym sig_recover = "hash \<Rightarrow> bytes \<Rightarrow> error + node_id"

text \<open>\<open>sign := header.Extra[32:97]\<close>, then recovery of the signer from the seal hash.\<close>

definition parseNodeId :: "sig_recover \<Rightarrow> header \<Rightarrow> error + node_id" where
  "parseNodeId sigToPub hdr =
     (if length (hdr_extra hdr) < 97 then Inl (ErrPanic ''slice bounds out of range'')
      else sigToPub (hdr_seal_hash hdr) (take 65 (drop 32 (hdr_extra hdr))))"

section \<open>Counter read and increment\<close>

definition getBlockAmount :: "sig_recover \<Rightarrow> snapdb \<Rightarrow> hash \<Rightarrow> header \<Rightarrow> error + 16 word" where
  "getBlockAmount sigToPub db blockHash hdr =
     (case parseNodeId sigToPub hdr of
        Inl e \<Rightarrow> Inl e
      | Inr nodeId \<Rightarrow>
          (case db_Get db blockHash (curKey nodeId) of
             Inl e \<Rightarrow> (if e = ErrNotFound then Inr 0 else Inl e)
           | Inr value \<Rightarrow>
               (case rlp_decode_u16 value of
                  Inl e \<Rightarrow> Inl (ErrRlp e)
                | Inr amount \<Rightarrow> Inr amount)))"

text \<open>\<open>value++\<close> is uint16 arithmetic; rlp.EncodeToBytes of a uint16 never fails.\<close>

definition setBlockAmount :: "sig_recover \<Rightarrow> snapdb \<Rightarrow> hash \<Rightarrow> header \<Rightarrow> snapdb outcome" where
  "setBlockAmount sigToPub db blockHash hdr =
     (case parseNodeId sigToPub hdr of
        Inl e \<Rightarrow> (db, Some e)
      | Inr nodeId \<Rightarrow>
          (case getBlockAmount sigToPub db blockHash hdr of
             Inl e \<Rightarrow> (db, Some e)
           | Inr value \<Rightarrow>
               (case db_PutBaseDB db (curKey nodeId) (rlp_encode_u16 (value + 1)) of
                  Inl e \<Rightarrow> (db, Some e)
                | Inr db' \<Rightarrow> (db', None))))"

section \<open>Invariant and abstraction\<close>

definition counter_key :: "bytes \<Rightarrow> bool" where
  "counter_key k \<longleftrightarrow> prefix curAbnormalPrefix k \<or> prefix preAbnormalPrefix k"

definition counter_entry_ok :: "bytes \<times> bytes \<Rightarrow> bool" where
  "counter_entry_ok e \<longleftrightarrow>
     (counter_key (fst e) \<longrightarrow>
        length (fst e) = length curAbnormalPrefix + node_id_len \<and> \<not> isl (rlp_decode_u16 (snd e)))"

definition counters_wf :: "snapdb \<Rightarrow> bool" where
  "counters_wf db \<longleftrightarrow> kv_wf (base_db db) \<and> list_all counter_entry_ok (base_db db)"

text \<open>No block overlay holds a counter key: the plugin writes counters to the base
  layer only, so reads through a block see the committed counters.\<close>

definition branch_clean :: "snapdb \<Rightarrow> bool" where
  "branch_clean db \<longleftrightarrow> (\<forall>h k. counter_key k \<longrightarrow> branch_db db h k = None)"

definition counter_of :: "snapdb \<Rightarrow> bytes \<Rightarrow> 16 word option" where
  "counter_of db k =
     (case base_lookup db k of
        None \<Rightarrow> None
      | Some v \<Rightarrow> (case rlp_decode_u16 v of Inl _ \<Rightarrow> None | Inr a \<Rightarrow> Some a))"

definition cur_counts :: "snapdb \<Rightarrow> node_id \<Rightarrow> 16 word option" where
  "cur_counts db n = counter_of db (curKey n)"

definition pre_counts :: "snapdb \<Rightarrow> node_id \<Rightarrow> 16 word option" where
  "pre_counts db n = counter_of db (preKey n)"

text \<open>A missing counter reads as zero.\<close>

definition count0 :: "16 word option \<Rightarrow> 16 word" where
  "count0 c = (case c of None \<Rightarrow> 0 | Some a \<Rightarrow> a)"

section \<open>Sample data for the examples\<close>

definition sample_node :: node_id where
  "sample_node = replicate 64 7"

definition sample_sig :: sig_recover where
  "sample_sig h s = Inr sample_node"

definition sample_header :: header where
  "sample_header = \<lparr>hdr_number = 1, hdr_extra = replicate 97 0, hdr_seal_hash = replicate 32 0\<rparr>"

section \<open>Key lemmas\<close>

lemma prefix_lengths [slash_keys, simp]:
  "length curAbnormalPrefix = 7" "length preAbnormalPrefix = 7"
  by (simp_all add: curAbnormalPrefix_def preAbnormalPrefix_def str_bytes_def)

lemma curKey_inj [slash_keys, simp]: "curKey a = curKey b \<longleftrightarrow> a = b"
  by (simp add: curKey_def)

lemma preKey_inj [slash_keys, simp]: "preKey a = preKey b \<longleftrightarrow> a = b"
  by (simp add: preKey_def)

lemma cur_pre_distinct [slash_keys, simp]: "curKey a \<noteq> preKey b" "preKey b \<noteq> curKey a"
  by (simp_all add: curKey_def preKey_def curAbnormalPrefix_def preAbnormalPrefix_def str_bytes_def)

lemma prefix_cur_not_pre [slash_keys]: "prefix curAbnormalPrefix k \<Longrightarrow> \<not> prefix preAbnormalPrefix k"
  by (auto simp: prefix_def curAbnormalPrefix_def preAbnormalPrefix_def str_bytes_def)

lemma prefix_curKey [slash_keys, simp]:
  "prefix curAbnormalPrefix (curKey n)" "\<not> prefix preAbnormalPrefix (curKey n)"
  "prefix preAbnormalPrefix (preKey n)" "\<not> prefix curAbnormalPrefix (preKey n)"
  by (auto simp: curKey_def preKey_def curAbnormalPrefix_def preAbnormalPrefix_def
      str_bytes_def prefix_def)

lemma counter_key_keys [slash_keys, simp]: "counter_key (curKey n)" "counter_key (preKey n)"
  by (simp_all add: counter_key_def)

lemma curKey_drop [slash_keys, simp]:
  "drop 7 (curKey n) = n" "drop 7 (preKey n) = n"
  by (simp_all add: curKey_def preKey_def)

lemma prefix_cur_curKey:
  "prefix curAbnormalPrefix k \<Longrightarrow> k = curKey (drop 7 k)"
  by (auto simp: prefix_def curKey_def)

lemma prefix_pre_preKey:
  "prefix preAbnormalPrefix k \<Longrightarrow> k = preKey (drop 7 k)"
  by (auto simp: prefix_def preKey_def)

lemma getNodeId_preKey [slash_keys]:
  "length n = node_id_len \<Longrightarrow> getNodeId preAbnormalPrefix (preKey n) = Inr n"
  by (simp add: getNodeId_def BytesID_def preKey_def)

section \<open>The counter abstraction\<close>

lemma counter_of_put [kv_simps]:
  "counter_of (db\<lparr>base_db := kv_put k v (base_db db)\<rparr>) k' =
     (if k' = k then (case rlp_decode_u16 v of Inl _ \<Rightarrow> None | Inr a \<Rightarrow> Some a) else counter_of db k')"
  by (simp add: counter_of_def base_lookup_put)

lemma counter_of_del [kv_simps]:
  "counter_of (db\<lparr>base_db := kv_del k (base_db db)\<rparr>) k' = (if k' = k then None else counter_of db k')"
  by (simp add: counter_of_def base_lookup_del)

lemma counter_of_encode [kv_simps]:
  "counter_of (db\<lparr>base_db := kv_put k (rlp_encode_u16 a) (base_db db)\<rparr>) k' =
     (if k' = k then Some a else counter_of db k')"
  by (simp add: counter_of_put rlp_decode_encode_u16)

text \<open>Under the invariant every stored counter decodes.\<close>

lemma counters_wf_decode:
  assumes "counters_wf db" "base_lookup db k = Some v" "counter_key k"
  shows "\<exists>a. rlp_decode_u16 v = Inr a"
proof -
  have "(k, v) \<in> set (base_db db)"
    using assms(1,2) by (simp add: counters_wf_def base_lookup_wf_mem)
  then have "counter_entry_ok (k, v)"
    using assms(1) by (simp add: counters_wf_def list_all_iff)
  then show ?thesis
    using assms(3) by (cases "rlp_decode_u16 v") (auto simp: counter_entry_ok_def)
qed

lemma counters_wf_lookup:
  assumes "counters_wf db" "counter_key k"
  shows "counter_of db k = None \<longleftrightarrow> base_lookup db k = None"
proof (cases "base_lookup db k")
  case (Some v)
  then obtain a where "rlp_decode_u16 v = Inr a"
    using assms counters_wf_decode by blast
  with Some show ?thesis by (simp add: counter_of_def)
qed (simp add: counter_of_def)

lemma counter_entry_ok_curKey [kv_simps]:
  "length n = node_id_len \<Longrightarrow> counter_entry_ok (curKey n, rlp_encode_u16 a)"
  "length n = node_id_len \<Longrightarrow> counter_entry_ok (preKey n, rlp_encode_u16 a)"
  by (simp_all add: counter_entry_ok_def curKey_def preKey_def rlp_decode_encode_u16)

lemma counters_wf_put_encode [kv_simps]:
  "counters_wf db \<Longrightarrow> counter_entry_ok (k, v) \<Longrightarrow>
   counters_wf (db\<lparr>base_db := kv_put k v (base_db db)\<rparr>)"
  by (simp add: counters_wf_def kv_wf_put kv_list_all_put)

lemma counters_wf_del [kv_simps]:
  "counters_wf db \<Longrightarrow> counters_wf (db\<lparr>base_db := kv_del k (base_db db)\<rparr>)"
  by (simp add: counters_wf_def kv_wf_del kv_list_all_del)

lemma branch_clean_base [kv_simps]:
  "branch_clean (db\<lparr>base_db := kvs\<rparr>) = branch_clean db"
  by (simp add: branch_clean_def)

lemma branch_clean_None:
  "branch_clean db \<Longrightarrow> branch_db db h (curKey n) = None"
  by (simp add: branch_clean_def)

section \<open>Counter read and increment: behaviour\<close>

text \<open>With a recovered producer, a readable key and the invariant, the read returns the
  committed current-round count, zero when there is none.\<close>

lemma getBlockAmount_ok:
  assumes "parseNodeId sigToPub hdr = Inr nid" "\<not> io_fault db (curKey nid)"
    and "branch_clean db" "counters_wf db"
  shows "getBlockAmount sigToPub db h hdr = Inr (count0 (cur_counts db nid))"
proof (cases "base_lookup db (curKey nid)")
  case None
  with assms show ?thesis
    by (simp add: getBlockAmount_def db_Get_clean branch_clean_None cur_counts_def
        counter_of_def count0_def)
next
  case (Some v)
  then obtain a where "rlp_decode_u16 v = Inr a"
    using assms counters_wf_decode [of db "curKey nid" v] by auto
  with Some assms show ?thesis
    by (simp add: getBlockAmount_def db_Get_clean branch_clean_None cur_counts_def
        counter_of_def count0_def)
qed

lemma getBlockAmount_wf:
  assumes "counters_wf db" "branch_clean db"
  shows "getBlockAmount sigToPub db h hdr =
     (case parseNodeId sigToPub hdr of
        Inl e \<Rightarrow> Inl e
      | Inr nid \<Rightarrow> if io_fault db (curKey nid) then Inl (ErrIO (curKey nid))
                  else Inr (count0 (cur_counts db nid)))"
proof (cases "parseNodeId sigToPub hdr")
  case (Inl e)
  then show ?thesis by (simp add: getBlockAmount_def)
next
  case (Inr nid)
  then show ?thesis
    using assms getBlockAmount_ok [of sigToPub hdr nid db h] by (simp add: getBlockAmount_def db_Get_def)
qed

lemma setBlockAmount_ok:
  assumes "parseNodeId sigToPub hdr = Inr nid" "\<not> io_fault db (curKey nid)"
    and "branch_clean db" "counters_wf db"
  shows "setBlockAmount sigToPub db h hdr =
     (db\<lparr>base_db := kv_put (curKey nid) (rlp_encode_u16 (count0 (cur_counts db nid) + 1)) (base_db db)\<rparr>,
      None)"
  using assms by (simp add: setBlockAmount_def getBlockAmount_ok db_PutBaseDB_no_fault)

lemma sample_parse [simp]: "parseNodeId sample_sig sample_header = Inr sample_node"
  by (simp add: parseNodeId_def sample_sig_def sample_header_def)

lemma sample_node_len [simp]: "length sample_node = node_id_len"
  by (simp add: sample_node_def node_id_len_def)

lemma empty_db_facts [simp]:
  "io_fault empty_db k = False" "branch_clean empty_db" "counters_wf empty_db"
  "cur_counts empty_db n = None" "pre_counts empty_db n = None" "no_fault empty_db"
  "base_db empty_db = []"
  by (simp_all add: empty_db_def branch_clean_def counters_wf_def kv_wf_def cur_counts_def
      pre_counts_def counter_of_def base_lookup_def no_fault_def)

lemma setBlockAmount_ok_state:
  fixes h :: hash
  assumes "parseNodeId sigToPub hdr = Inr nid" "length nid = node_id_len"
    and "\<not> io_fault db (curKey nid)" "branch_clean db" "counters_wf db"
  defines "db' \<equiv> fst (setBlockAmount sigToPub db h hdr)"
  shows "cur_counts db' = (cur_counts db)(nid \<mapsto> count0 (cur_counts db nid) + 1)"
    and "pre_counts db' = pre_counts db"
    and "counters_wf db'" "branch_clean db'" "io_fault db' = io_fault db"
  using assms
  by (simp_all add: setBlockAmount_ok fun_eq_iff cur_counts_def pre_counts_def counter_of_encode
      counters_wf_put_encode counter_entry_ok_curKey branch_clean_base)

text \<open>C5: the increment refines "count of the producer := count + 1" on the two
  windows of counts, and keeps the store invariant.\<close>

theorem setBlockAmount_increments:
  assumes "parseNodeId sigToPub hdr = Inr nid" "length nid = node_id_len"
    and "\<not> io_fault db (curKey nid)" "branch_clean db" "counters_wf db"
  shows "\<exists>db'. setBlockAmount sigToPub db h hdr = (db', None)
     \<and> cur_counts db' = (cur_counts db)(nid \<mapsto> count0 (cur_counts db nid) + 1)
     \<and> pre_counts db' = pre_counts db \<and> counters_wf db' \<and> branch_clean db'"
proof -
  have "snd (setBlockAmount sigToPub db h hdr) = None"
    using assms by (simp add: setBlockAmount_ok)
  then show ?thesis
    using setBlockAmount_ok_state [OF assms, of h]
    by (metis prod.collapse)
qed

theorem setBlockAmount_increments_witness:
  "parseNodeId sample_sig sample_header = Inr sample_node \<and> length sample_node = node_id_len
   \<and> \<not> io_fault empty_db (curKey sample_node) \<and> branch_clean empty_db \<and> counters_wf empty_db
   \<and> (\<exists>db'. setBlockAmount sample_sig empty_db [] sample_header = (db', None)
       \<and> cur_counts db' = (cur_counts empty_db)(sample_node \<mapsto> count0 (cur_counts empty_db sample_node) + 1)
       \<and> pre_counts db' = pre_counts empty_db \<and> counters_wf db' \<and> branch_clean db')"
  using setBlockAmount_increments [where sigToPub = sample_sig and hdr = sample_header
      and nid = sample_node and db = empty_db and h = "[]"] by simp

text \<open>C27: a failed increment leaves the store as it was: every write of
  \<open>setBlockAmount\<close> is its last step.\<close>

theorem setBlockAmount_atomic:
  assumes "snd (setBlockAmount sigToPub db h hdr) = Some e"
  shows "fst (setBlockAmount sigToPub db h hdr) = db"
  using assms by (auto simp: setBlockAmount_def split: sum.splits)

text \<open>C26: N increments for the same producer, from no counter, read back N modulo 2^16:
  the uint16 counter wraps around at 65536.\<close>

theorem getBlockAmount_after_increments:
  assumes "parseNodeId sigToPub hdr = Inr nid" "length nid = node_id_len"
    and "\<not> io_fault db (curKey nid)" "branch_clean db" "counters_wf db"
    and "cur_counts db nid = None"
  shows "\<exists>a. getBlockAmount sigToPub (((\<lambda>d. fst (setBlockAmount sigToPub d h hdr)) ^^ n) db) h' hdr
             = Inr a \<and> unat a = n mod 65536"
proof -
  let ?f = "\<lambda>d. fst (setBlockAmount sigToPub d h hdr)"
  have inv: "counters_wf ((?f ^^ k) db) \<and> branch_clean ((?f ^^ k) db)
      \<and> io_fault ((?f ^^ k) db) = io_fault db
      \<and> count0 (cur_counts ((?f ^^ k) db) nid) = of_nat k" for k
  proof (induction k)
    case 0
    then show ?case using assms(4-6) by (simp add: count0_def)
  next
    case (Suc k)
    then have "\<not> io_fault ((?f ^^ k) db) (curKey nid)" using assms(3) by simp
    with Suc assms(1,2) show ?case
      by (simp add: setBlockAmount_ok_state count0_def)
  qed
  then have "getBlockAmount sigToPub ((?f ^^ n) db) h' hdr = Inr (of_nat n)"
    using assms(1,3) getBlockAmount_ok [of sigToPub hdr nid "(?f ^^ n) db" h'] by simp
  moreover have "unat (of_nat n :: 16 word) = n mod 65536" by (simp add: unat_of_nat)
  ultimately show ?thesis by blast
qed

theorem setBlockAmount_atomic_witness:
  "snd (setBlockAmount sample_sig (empty_db\<lparr>io_fault := (\<lambda>k. k = curKey sample_node)\<rparr>) [] sample_header)
     = Some (ErrIO (curKey sample_node))
   \<and> fst (setBlockAmount sample_sig (empty_db\<lparr>io_fault := (\<lambda>k. k = curKey sample_node)\<rparr>) [] sample_header)
     = empty_db\<lparr>io_fault := (\<lambda>k. k = curKey sample_node)\<rparr>"
proof -
  have "snd (setBlockAmount sample_sig (empty_db\<lparr>io_fault := (\<lambda>k. k = curKey sample_node)\<rparr>) [] sample_header)
     = Some (ErrIO (curKey sample_node))"
    by (simp add: setBlockAmount_def getBlockAmount_def db_Get_def)
  with setBlockAmount_atomic show ?thesis by blast
qed

theorem getBlockAmount_after_increments_witness:
  "parseNodeId sample_sig sample_header = Inr sample_node \<and> length sample_node = node_id_len
   \<and> \<not> io_fault empty_db (curKey sample_node) \<and> branch_clean empty_db \<and> counters_wf empty_db
   \<and> cur_counts empty_db sample_node = None
   \<and> (\<exists>a. getBlockAmount sample_sig
           (((\<lambda>d. fst (setBlockAmount sample_sig d [] sample_header)) ^^ 3) empty_db) [] sample_header
         = Inr a \<and> unat a = 3 mod 65536)"
  using getBlockAmount_after_increments [where sigToPub = sample_sig and hdr = sample_header
      and nid = sample_node and db = empty_db and h = "[]" and n = 3 and h' = "[]"]
  by simp

text \<open>C28: a counter written in the encoding setBlockAmount uses is read back
  unchanged by getBlockAmount.\<close>

theorem getBlockAmount_roundtrip:
  assumes "parseNodeId sigToPub hdr = Inr nid" "\<not> io_fault db (curKey nid)"
    and "branch_db db h (curKey nid) = None"
  shows "getBlockAmount sigToPub (db\<lparr>base_db := kv_put (curKey nid) (rlp_encode_u16 v) (base_db db)\<rparr>) h hdr
         = Inr v"
  using assms by (simp add: getBlockAmount_def db_Get_def kv_put_lookup rlp_decode_encode_u16)

theorem getBlockAmount_roundtrip_witness:
  "parseNodeId sample_sig sample_header = Inr sample_node \<and> \<not> io_fault empty_db (curKey sample_node)
   \<and> branch_db empty_db [] (curKey sample_node) = None
   \<and> getBlockAmount sample_sig
       (empty_db\<lparr>base_db := kv_put (curKey sample_node) (rlp_encode_u16 300) (base_db empty_db)\<rparr>)
       [] sample_header = Inr 300"
  using getBlockAmount_roundtrip [where sigToPub = sample_sig and hdr = sample_header
      and nid = sample_node and db = empty_db and h = "[]" and v = 300]
  by (simp add: empty_db_def)

end
