(* ===== verification/Epoch_Rotation.thy ===== *)
theory Epoch_Rotation
  imports Round_Counter
begin

text \<open>
  The epoch rotation of slashing_plugin.go: \<open>switchEpoch\<close> deletes every
  previous-round counter, then moves every current-round counter to the previous-round
  prefix (delete under \<open>"SlashCb"\<close>, put under \<open>"SlashPb"\<close>), each step a direct
  write to the base layer; \<open>Confirmed\<close> runs it at the first block of every round
  after the first and then counts the confirmed block for its producer.

  The two walks are \<open>delete_walked\<close> and \<open>move_walked\<close>, recursion over the
  entries the iterator yields (a snapshot taken when the walk starts), stopping at the
  first failing store call.  The lemmas show that without store failures the rotation
  turns the current window into the previous one and empties the current one, leaving
  every other key alone and keeping the store invariant; and that a failure to write
  a previous-round key leaves a half-rotated store in which that node's count is lost.
\<close>

section \<open>The two walks of switchEpoch\<close>

fun delete_walked :: "snapdb \<Rightarrow> (bytes \<times> bytes) list \<Rightarrow> snapdb outcome" where
  "delete_walked db [] = (db, None)"
| "delete_walked db (e # es) =
     (case db_DelBaseDB db (fst e) of
        Inl err \<Rightarrow> (db, Some err)
      | Inr db' \<Rightarrow> delete_walked db' es)"

fun move_walked :: "snapdb \<Rightarrow> (bytes \<times> bytes) list \<Rightarrow> snapdb outcome" where
  "move_walked db [] = (db, None)"
| "move_walked db ((key, value) # es) =
     (case db_DelBaseDB db key of
        Inl err \<Rightarrow> (db, Some err)
      | Inr db1 \<Rightarrow>
          (case db_PutBaseDB db1 (preKey (drop (length curAbnormalPrefix) key)) value of
             Inl err \<Rightarrow> (db1, Some err)
           | Inr db2 \<Rightarrow> move_walked db2 es))"

definition switchEpoch :: "snapdb \<Rightarrow> hash \<Rightarrow> snapdb outcome" where
  "switchEpoch db blockHash =
     (case delete_walked db (db_WalkBaseDB db preAbnormalPrefix) of
        (db1, Some err) \<Rightarrow> (db1, Some err)
      | (db1, None) \<Rightarrow> move_walked db1 (db_WalkBaseDB db1 curAbnormalPrefix))"

section \<open>Confirmed\<close>

record block =
  blk_hash :: hash
  blk_header :: header

text \<open>The first block of a round is \<open>n mod ConsensusSize = 1\<close>, block 1 excepted.\<close>

definition is_round_start :: "xcom_config \<Rightarrow> 64 word \<Rightarrow> bool" where
  "is_round_start cfg n \<longleftrightarrow> n mod consensus_size cfg = 1 \<and> 1 < n"

definition Confirmed :: "xcom_config \<Rightarrow> sig_recover \<Rightarrow> snapdb \<Rightarrow> block \<Rightarrow> snapdb outcome" where
  "Confirmed cfg sigToPub db blk =
     (case (if is_round_start cfg (hdr_number (blk_header blk))
            then switchEpoch db (blk_hash blk) else (db, None)) of
        (db1, Some err) \<Rightarrow> (db1, Some err)
      | (db1, None) \<Rightarrow> setBlockAmount sigToPub db1 (blk_hash blk) (blk_header blk))"

text \<open>The entries a rotation moves, under their destination keys.\<close>

definition moved :: "(bytes \<times> bytes) list \<Rightarrow> (bytes \<times> bytes) list" where
  "moved es = map (\<lambda>(k, v). (preKey (drop (length curAbnormalPrefix) k), v)) es"

text \<open>The effect of one step of each walk on the base layer.\<close>

definition del_step :: "(bytes \<times> bytes) list \<Rightarrow> bytes \<times> bytes \<Rightarrow> (bytes \<times> bytes) list" where
  "del_step kvs e = kv_del (fst e) kvs"

definition move_step :: "(bytes \<times> bytes) list \<Rightarrow> bytes \<times> bytes \<Rightarrow> (bytes \<times> bytes) list" where
  "move_step kvs e = kv_put (preKey (drop (length curAbnormalPrefix) (fst e))) (snd e) (kv_del (fst e) kvs)"

section \<open>Abstract specification\<close>

text \<open>The two windows of per-node counts the store represents, and the step a
  confirmed block makes on them: at a round start the current window becomes the
  previous one and a fresh current window starts; then the producer's current count
  goes up by one.\<close>

type_synonym counts = "node_id \<Rightarrow> 16 word option"

definition counts_of :: "snapdb \<Rightarrow> counts \<times> counts" where
  "counts_of db = (cur_counts db, pre_counts db)"

definition confirm_spec :: "xcom_config \<Rightarrow> 64 word \<Rightarrow> node_id \<Rightarrow> counts \<times> counts \<Rightarrow> counts \<times> counts" where
  "confirm_spec cfg n nid w =
     (let (c, p) = (if is_round_start cfg n then (\<lambda>_. None, fst w) else w)
      in (c(nid \<mapsto> count0 (c nid) + 1), p))"

text \<open>A store whose previous-round key of the sample node cannot be written.\<close>

definition faulty_rotation_db :: snapdb where
  "faulty_rotation_db = empty_db\<lparr>base_db := [(curKey sample_node, rlp_encode_u16 3)],
                                 io_fault := (\<lambda>k. k = preKey sample_node)\<rparr>"

text \<open>A store whose current-round counter of the sample node cannot be read.\<close>

definition faulty_count_db :: snapdb where
  "faulty_count_db = empty_db\<lparr>io_fault := (\<lambda>k. k = curKey sample_node)\<rparr>"

definition sample_block :: "64 word \<Rightarrow> block" where
  "sample_block n = \<lparr>blk_hash = [], blk_header = sample_header\<lparr>hdr_number := n\<rparr>\<rparr>"

section \<open>The walks without store failures\<close>

lemma no_fault_base [kv_simps]: "no_fault (db\<lparr>base_db := kvs\<rparr>) = no_fault db"
  by (simp add: no_fault_def)

lemma delete_walked_clean:
  "\<forall>e \<in> set es. \<not> io_fault db (fst e) \<Longrightarrow>
   delete_walked db es = (db\<lparr>base_db := foldl del_step (base_db db) es\<rparr>, None)"
  by (induction es arbitrary: db) (simp_all add: db_DelBaseDB_def del_step_def)

lemma move_walked_clean:
  "\<forall>(k, v) \<in> set es. \<not> io_fault db k \<and> \<not> io_fault db (preKey (drop 7 k)) \<Longrightarrow>
   move_walked db es = (db\<lparr>base_db := foldl move_step (base_db db) es\<rparr>, None)"
  by (induction db es rule: move_walked.induct)
     (simp_all add: db_DelBaseDB_def db_PutBaseDB_def move_step_def)

lemma move_walked_append:
  "move_walked db (xs @ ys) =
     (case move_walked db xs of (d, None) \<Rightarrow> move_walked d ys | (d, Some e) \<Rightarrow> (d, Some e))"
  by (induction db xs rule: move_walked.induct) (simp_all split: sum.split prod.split option.split)

lemma pre_fault_spares_cur:
  "prefix curAbnormalPrefix k \<Longrightarrow> k \<noteq> curKey nid \<Longrightarrow> preKey (drop 7 k) \<noteq> preKey nid \<and> k \<noteq> preKey nid"
  by (metis prefix_cur_curKey preKey_inj prefix_cur_not_pre prefix_pre_preKey cur_pre_distinct(2))

lemma delete_walked_ok:
  "no_fault db \<Longrightarrow> delete_walked db es = (db\<lparr>base_db := foldl del_step (base_db db) es\<rparr>, None)"
  by (simp add: delete_walked_clean no_fault_def)

lemma move_walked_ok:
  "no_fault db \<Longrightarrow> move_walked db es = (db\<lparr>base_db := foldl move_step (base_db db) es\<rparr>, None)"
  by (rule move_walked_clean) (auto simp: no_fault_def)

lemma foldl_del_step_lookup:
  "map_of (foldl del_step kvs es) k = (if k \<in> fst ` set es then None else map_of kvs k)"
  by (induction es arbitrary: kvs) (auto simp: del_step_def kv_del_lookup)

lemma foldl_del_step_wf: "kv_wf kvs \<Longrightarrow> kv_wf (foldl del_step kvs es)"
  by (induction es arbitrary: kvs) (simp_all add: del_step_def kv_wf_del)

lemma foldl_del_step_ok:
  "list_all P kvs \<Longrightarrow> list_all P (foldl del_step kvs es)"
  by (induction es arbitrary: kvs) (simp_all add: del_step_def kv_list_all_del)

lemma moved_keys_pre: "k \<in> fst ` set (moved es) \<Longrightarrow> prefix preAbnormalPrefix k"
  by (auto simp: moved_def)

lemma moved_lookup_preKey:
  "\<forall>k \<in> fst ` set es. prefix curAbnormalPrefix k \<Longrightarrow>
   map_of (moved es) (preKey n) = map_of es (curKey n)"
proof (induction es)
  case Nil
  then show ?case by (simp add: moved_def)
next
  case (Cons e es)
  obtain k v where e: "e = (k, v)" by (cases e)
  with Cons.prems have k: "k = curKey (drop 7 k)" by (simp add: prefix_cur_curKey)
  have m: "moved (e # es) = (preKey (drop 7 k), v) # moved es" by (simp add: moved_def e)
  have IH: "map_of (moved es) (preKey n) = map_of es (curKey n)" using Cons by simp
  show ?case
  proof (cases "k = curKey n")
    case True
    then show ?thesis using m e by simp
  next
    case False
    then have "preKey (drop 7 k) \<noteq> preKey n" using k by auto
    then show ?thesis using m e IH False by simp
  qed
qed

lemma moved_lookup_other:
  "\<not> prefix preAbnormalPrefix k \<Longrightarrow> map_of (moved es) k = None"
  using moved_keys_pre by (metis map_of_eq_None_iff)

lemma foldl_move_step_lookup:
  assumes "\<forall>k \<in> fst ` set es. prefix curAbnormalPrefix k" "distinct (map fst es)"
  shows "map_of (foldl move_step kvs es) k =
     (if k \<in> fst ` set es then None
      else case map_of (moved es) k of Some v \<Rightarrow> Some v | None \<Rightarrow> map_of kvs k)"
  using assms
proof (induction es arbitrary: kvs)
  case Nil
  then show ?case by (simp add: moved_def)
next
  case (Cons e es)
  obtain k0 v0 where e: "e = (k0, v0)" by (cases e)
  let ?p0 = "preKey (drop 7 k0)"
  have cur0: "prefix curAbnormalPrefix k0" using Cons.prems(1) e by simp
  have k0_fresh: "k0 \<notin> fst ` set es" using Cons.prems(2) e by auto
  have p0_ne: "?p0 \<noteq> k0" using cur0 by (metis prefix_cur_curKey cur_pre_distinct(2))
  have p0_fresh: "map_of (moved es) ?p0 = None"
  proof -
    have "map_of (moved es) ?p0 = map_of es (curKey (drop 7 k0))"
      using Cons.prems(1) by (simp add: moved_lookup_preKey)
    also have "curKey (drop 7 k0) = k0" using cur0 by (simp add: prefix_cur_curKey [symmetric])
    finally show ?thesis using k0_fresh by (simp add: map_of_eq_None_iff)
  qed
  have k0_moved: "map_of (moved es) k0 = None"
    using cur0 prefix_cur_not_pre moved_lookup_other by blast
  have p0_keys: "?p0 \<notin> fst ` set es"
  proof
    assume "?p0 \<in> fst ` set es"
    then obtain x where "x \<in> set es" "fst x = ?p0" by auto
    then have "prefix curAbnormalPrefix ?p0" using Cons.prems(1) by auto
    then show False by simp
  qed
  have IH: "map_of (foldl move_step (move_step kvs e) es) k =
     (if k \<in> fst ` set es then None
      else case map_of (moved es) k of Some v \<Rightarrow> Some v | None \<Rightarrow> map_of (move_step kvs e) k)"
    using Cons.IH Cons.prems by simp
  have step: "map_of (move_step kvs e) = ((map_of kvs)(k0 := None))(?p0 \<mapsto> v0)"
    by (simp add: move_step_def e kv_put_lookup kv_del_lookup)
  show ?case
    using IH step e p0_ne p0_fresh k0_moved p0_keys
    by (auto simp: moved_def split: option.splits)
qed

lemma foldl_move_step_wf: "kv_wf kvs \<Longrightarrow> kv_wf (foldl move_step kvs es)"
  by (induction es arbitrary: kvs) (simp_all add: move_step_def kv_wf_put kv_wf_del)

lemma foldl_move_step_ok:
  assumes "list_all counter_entry_ok kvs" "list_all counter_entry_ok es"
    and "\<forall>k \<in> fst ` set es. prefix curAbnormalPrefix k"
  shows "list_all counter_entry_ok (foldl move_step kvs es)"
  using assms
proof (induction es arbitrary: kvs)
  case Nil
  then show ?case by simp
next
  case (Cons e es)
  obtain k v where e: "e = (k, v)" by (cases e)
  have "prefix curAbnormalPrefix k" using Cons.prems(3) e by simp
  moreover have "counter_entry_ok (k, v)" using Cons.prems(2) e by simp
  ultimately have "counter_entry_ok (preKey (drop 7 k), v)"
    by (simp add: counter_entry_ok_def counter_key_def preKey_def)
  then have "list_all counter_entry_ok (move_step kvs e)"
    using Cons.prems(1) e by (simp add: move_step_def kv_list_all_put kv_list_all_del)
  then show ?case using Cons.IH Cons.prems e by simp
qed

section \<open>switchEpoch without store failures\<close>

text \<open>After the rotation the base layer holds nothing under the current prefix, the
  former current value of node \<open>n\<close> under the previous-round key of \<open>n\<close>, and every
  other key as before.\<close>

lemma switchEpoch_lookup:
  assumes nf: "no_fault db" and wf: "counters_wf db"
  shows "\<exists>db'. switchEpoch db h = (db', None)
    \<and> base_lookup db' = (\<lambda>k. if prefix curAbnormalPrefix k then None
                             else if prefix preAbnormalPrefix k then base_lookup db (curKey (drop 7 k))
                             else base_lookup db k)
    \<and> counters_wf db' \<and> branch_db db' = branch_db db \<and> io_fault db' = io_fault db"
proof -
  define W1 where "W1 = db_WalkBaseDB db preAbnormalPrefix"
  define db1 where "db1 = db\<lparr>base_db := foldl del_step (base_db db) W1\<rparr>"
  define W2 where "W2 = db_WalkBaseDB db1 curAbnormalPrefix"
  define db2 where "db2 = db1\<lparr>base_db := foldl move_step (base_db db1) W2\<rparr>"
  have kv: "kv_wf (base_db db)" using wf by (simp add: counters_wf_def)
  have nf1: "no_fault db1" using nf by (simp add: db1_def no_fault_base)
  have sw: "switchEpoch db h = (db2, None)"
    using nf nf1 by (simp add: switchEpoch_def delete_walked_ok move_walked_ok W1_def db1_def W2_def db2_def)
  have wf1: "counters_wf db1"
    using wf by (simp add: counters_wf_def db1_def foldl_del_step_wf foldl_del_step_ok)
  have l1: "base_lookup db1 k = (if prefix preAbnormalPrefix k then None else base_lookup db k)" for k
    using kv by (auto simp: db1_def base_lookup_def foldl_del_step_lookup W1_def db_WalkBaseDB_keys)
  have kv1: "kv_wf (base_db db1)" using wf1 by (simp add: counters_wf_def)
  have W2_cur: "\<forall>k \<in> fst ` set W2. prefix curAbnormalPrefix k"
    by (auto simp: W2_def db_WalkBaseDB_def)
  have W2_dist: "distinct (map fst W2)" using kv1 by (simp add: W2_def db_WalkBaseDB_distinct)
  have W2_keys: "k \<in> fst ` set W2 \<longleftrightarrow> prefix curAbnormalPrefix k \<and> base_lookup db1 k \<noteq> None" for k
    using kv1 by (simp add: W2_def db_WalkBaseDB_keys)
  have W2_ok: "list_all counter_entry_ok W2"
    using wf1 by (simp add: W2_def db_WalkBaseDB_def counters_wf_def list_all_iff)
  have l2: "base_lookup db2 k = (if k \<in> fst ` set W2 then None
      else case map_of (moved W2) k of Some v \<Rightarrow> Some v | None \<Rightarrow> base_lookup db1 k)" for k
    using W2_cur W2_dist
    by (simp add: db2_def base_lookup_def foldl_move_step_lookup split: option.split)
  have l: "base_lookup db2 k = (if prefix curAbnormalPrefix k then None
      else if prefix preAbnormalPrefix k then base_lookup db (curKey (drop 7 k))
      else base_lookup db k)" for k
  proof (cases "prefix curAbnormalPrefix k")
    case True
    then have "map_of (moved W2) k = None" by (simp add: moved_lookup_other prefix_cur_not_pre)
    with True show ?thesis by (auto simp: l2 W2_keys)
  next
    case False
    then have nW: "k \<notin> fst ` set W2" using W2_keys by simp
    show ?thesis
    proof (cases "prefix preAbnormalPrefix k")
      case True
      then have k: "k = preKey (drop 7 k)" by (rule prefix_pre_preKey)
      have "map_of (moved W2) k = map_of W2 (curKey (drop 7 k))"
        using W2_cur k moved_lookup_preKey by metis
      also have "\<dots> = base_lookup db (curKey (drop 7 k))"
        by (simp add: W2_def db_WalkBaseDB_map_of l1)
      finally show ?thesis using nW False True by (simp add: l2 l1 split: option.split)
    next
      case pre: False
      then show ?thesis using nW False by (simp add: l2 l1 moved_lookup_other)
    qed
  qed
  have wf2: "counters_wf db2"
    using wf1 W2_ok W2_cur
    by (simp add: counters_wf_def db2_def foldl_move_step_wf foldl_move_step_ok)
  show ?thesis
    using sw l wf2 by (intro exI [of _ db2]) (simp add: fun_eq_iff db2_def db1_def)
qed

lemma branch_clean_cong: "branch_db db' = branch_db db \<Longrightarrow> branch_clean db' = branch_clean db"
  by (simp add: branch_clean_def)

text \<open>C4: without store failures, the rotation empties the current window, puts the
  former current value of every node under its previous-round key, drops the former
  previous-round values, leaves every other key as it was and keeps the store
  invariant.\<close>

theorem switchEpoch_rotates:
  assumes "no_fault db" "counters_wf db"
  shows "\<exists>db'. switchEpoch db h = (db', None)
     \<and> (\<forall>n. base_lookup db' (curKey n) = None)
     \<and> (\<forall>n. base_lookup db' (preKey n) = base_lookup db (curKey n))
     \<and> (\<forall>k. \<not> counter_key k \<longrightarrow> base_lookup db' k = base_lookup db k)
     \<and> counters_wf db'"
  using switchEpoch_lookup [OF assms, of h] by (auto simp: counter_key_def)

theorem switchEpoch_rotates_witness:
  "no_fault (empty_db\<lparr>base_db := [(curKey sample_node, rlp_encode_u16 3)]\<rparr>)
   \<and> counters_wf (empty_db\<lparr>base_db := [(curKey sample_node, rlp_encode_u16 3)]\<rparr>)
   \<and> (\<exists>db'. switchEpoch (empty_db\<lparr>base_db := [(curKey sample_node, rlp_encode_u16 3)]\<rparr>) [] = (db', None)
     \<and> (\<forall>n. base_lookup db' (curKey n) = None)
     \<and> (\<forall>n. base_lookup db' (preKey n)
            = base_lookup (empty_db\<lparr>base_db := [(curKey sample_node, rlp_encode_u16 3)]\<rparr>) (curKey n))
     \<and> (\<forall>k. \<not> counter_key k \<longrightarrow> base_lookup db' k
            = base_lookup (empty_db\<lparr>base_db := [(curKey sample_node, rlp_encode_u16 3)]\<rparr>) k)
     \<and> counters_wf db')"
proof -
  have nf: "no_fault (empty_db\<lparr>base_db := [(curKey sample_node, rlp_encode_u16 3)]\<rparr>)"
    by (simp add: no_fault_def empty_db_def)
  have wf: "counters_wf (empty_db\<lparr>base_db := [(curKey sample_node, rlp_encode_u16 3)]\<rparr>)"
    by (simp add: counters_wf_def kv_wf_def counter_entry_ok_curKey)
  show ?thesis using nf wf switchEpoch_rotates [OF nf wf, of "[]"] by blast
qed

text \<open>The rotation on the two windows, with the invariants it keeps.\<close>

lemma switchEpoch_shift:
  assumes "no_fault db" "counters_wf db" "branch_clean db"
  shows "\<exists>db'. switchEpoch db h = (db', None) \<and> counts_of db' = (\<lambda>_. None, cur_counts db)
     \<and> counters_wf db' \<and> branch_clean db' \<and> no_fault db'"
proof -
  obtain db' where sw: "switchEpoch db h = (db', None)"
    and l: "base_lookup db' = (\<lambda>k. if prefix curAbnormalPrefix k then None
                 else if prefix preAbnormalPrefix k then base_lookup db (curKey (drop 7 k))
                 else base_lookup db k)"
    and rest: "counters_wf db'" "branch_db db' = branch_db db" "io_fault db' = io_fault db"
    using switchEpoch_lookup [OF assms(1,2), of h] by blast
  have "cur_counts db' = (\<lambda>_. None)" "pre_counts db' = cur_counts db"
    by (simp_all add: fun_eq_iff cur_counts_def pre_counts_def counter_of_def l)
  moreover have "branch_clean db'"
    using branch_clean_cong [OF rest(2)] assms(3) by simp
  moreover have "no_fault db'"
    using rest(3) assms(1) by (simp add: no_fault_def)
  ultimately show ?thesis using sw rest by (simp add: counts_of_def)
qed

text \<open>C16: the rotation is not atomic.  On every well-formed store where node \<open>n\<close>
  has a current-round count and no previous-round counter, and the only key the store
  fails to write is the previous-round key of \<open>n\<close>, switchEpoch returns that I/O error
  after it has deleted the current-round key of \<open>n\<close>: the node's count is then in
  neither window.\<close>

theorem switchEpoch_partial_failure:
  assumes wf: "counters_wf db" and fault: "io_fault db = (\<lambda>k. k = preKey nid)"
    and cur: "cur_counts db nid = Some c" and pre: "pre_counts db nid = None"
  shows "\<exists>db'. switchEpoch db h = (db', Some (ErrIO (preKey nid)))
     \<and> cur_counts db' nid = None \<and> pre_counts db' nid = None"
proof -
  have kv: "kv_wf (base_db db)" using wf by (simp add: counters_wf_def)
  have pre0: "base_lookup db (preKey nid) = None"
    using pre counters_wf_lookup [OF wf, of "preKey nid"] by (simp add: pre_counts_def)
  define W1 where "W1 = db_WalkBaseDB db preAbnormalPrefix"
  define db1 where "db1 = db\<lparr>base_db := foldl del_step (base_db db) W1\<rparr>"
  have "\<forall>e \<in> set W1. \<not> io_fault db (fst e)"
    using pre0 kv by (auto simp: fault W1_def db_WalkBaseDB_lookup)
  then have d: "delete_walked db W1 = (db1, None)" by (simp add: delete_walked_clean db1_def)
  have wf1: "counters_wf db1"
    using wf by (simp add: counters_wf_def db1_def foldl_del_step_wf foldl_del_step_ok)
  have kv1: "kv_wf (base_db db1)" using wf1 by (simp add: counters_wf_def)
  have l1: "base_lookup db1 k = (if prefix preAbnormalPrefix k then None else base_lookup db k)" for k
    using kv by (auto simp: db1_def base_lookup_def foldl_del_step_lookup W1_def db_WalkBaseDB_keys)
  define W2 where "W2 = db_WalkBaseDB db1 curAbnormalPrefix"
  obtain v where v: "base_lookup db (curKey nid) = Some v"
    using cur by (auto simp: cur_counts_def counter_of_def split: option.splits)
  have "(curKey nid, v) \<in> set W2"
    using v kv1 l1 [of "curKey nid"] by (simp add: W2_def db_WalkBaseDB_lookup)
  then obtain xs ys where W2: "W2 = xs @ (curKey nid, v) # ys" by (meson split_list)
  have dist: "distinct (map fst W2)" using kv1 by (simp add: W2_def db_WalkBaseDB_distinct)
  have W2_cur: "\<forall>k \<in> fst ` set W2. prefix curAbnormalPrefix k"
    by (auto simp: W2_def db_WalkBaseDB_def)
  then have xs_cur: "\<forall>k \<in> fst ` set xs. prefix curAbnormalPrefix k" by (simp add: W2)
  have xs_fresh: "curKey nid \<notin> fst ` set xs" using dist by (simp add: W2)
  have xs_dist: "distinct (map fst xs)" using dist by (simp add: W2)
  define db2 where "db2 = db1\<lparr>base_db := foldl move_step (base_db db1) xs\<rparr>"
  have "\<forall>(k, v) \<in> set xs. \<not> io_fault db1 k \<and> \<not> io_fault db1 (preKey (drop 7 k))"
  proof (clarify)
    fix k v assume "(k, v) \<in> set xs"
    then have "prefix curAbnormalPrefix k" "k \<noteq> curKey nid" using xs_cur xs_fresh by force+
    then show "\<not> io_fault db1 k \<and> \<not> io_fault db1 (preKey (drop 7 k))"
      using pre_fault_spares_cur by (simp add: db1_def fault)
  qed
  then have m1: "move_walked db1 xs = (db2, None)" by (simp add: move_walked_clean db2_def)
  define db3 where "db3 = db2\<lparr>base_db := kv_del (curKey nid) (base_db db2)\<rparr>"
  have m2: "move_walked db2 ((curKey nid, v) # ys) = (db3, Some (ErrIO (preKey nid)))"
    by (simp add: db2_def db1_def db3_def db_DelBaseDB_def db_PutBaseDB_def fault)
  have sw: "switchEpoch db h = (db3, Some (ErrIO (preKey nid)))"
    using d m1 m2 by (simp add: switchEpoch_def W1_def W2_def [symmetric] W2 move_walked_append)
  have "base_lookup db3 (curKey nid) = None" by (simp add: db3_def base_lookup_def kv_del_lookup)
  moreover have "base_lookup db3 (preKey nid) = None"
  proof -
    have "map_of (moved xs) (preKey nid) = map_of xs (curKey nid)"
      using xs_cur by (rule moved_lookup_preKey)
    also have "\<dots> = None" using xs_fresh by (simp add: map_of_eq_None_iff)
    finally have "map_of (moved xs) (preKey nid) = None" .
    moreover have "preKey nid \<notin> fst ` set xs" using xs_cur by force
    ultimately show ?thesis
      using l1 [of "preKey nid"] xs_cur xs_dist
      by (simp add: db3_def db2_def base_lookup_def kv_del_lookup foldl_move_step_lookup)
  qed
  ultimately show ?thesis
    using sw by (simp add: cur_counts_def pre_counts_def counter_of_def)
qed

section \<open>Confirmed\<close>

lemma Confirmed_no_start:
  "\<not> is_round_start cfg (hdr_number (blk_header blk)) \<Longrightarrow>
   Confirmed cfg sigToPub db blk = setBlockAmount sigToPub db (blk_hash blk) (blk_header blk)"
  by (simp add: Confirmed_def)

lemma Confirmed_start:
  "is_round_start cfg (hdr_number (blk_header blk)) \<Longrightarrow> switchEpoch db (blk_hash blk) = (db1, None) \<Longrightarrow>
   Confirmed cfg sigToPub db blk = setBlockAmount sigToPub db1 (blk_hash blk) (blk_header blk)"
  by (simp add: Confirmed_def)

lemma Confirmed_start_error:
  "is_round_start cfg (hdr_number (blk_header blk)) \<Longrightarrow> switchEpoch db (blk_hash blk) = (db1, Some e) \<Longrightarrow>
   Confirmed cfg sigToPub db blk = (db1, Some e)"
  by (simp add: Confirmed_def)

text \<open>One confirmed block on the two windows, with the invariants it keeps.\<close>

lemma Confirmed_step:
  assumes "parseNodeId sigToPub (blk_header blk) = Inr nid" "length nid = node_id_len"
    and "no_fault db" "counters_wf db" "branch_clean db"
  shows "\<exists>db'. Confirmed cfg sigToPub db blk = (db', None)
     \<and> counts_of db' = confirm_spec cfg (hdr_number (blk_header blk)) nid (counts_of db)
     \<and> counters_wf db' \<and> branch_clean db' \<and> no_fault db'"
proof (cases "is_round_start cfg (hdr_number (blk_header blk))")
  case True
  obtain db1 where sw: "switchEpoch db (blk_hash blk) = (db1, None)"
    and c1: "counts_of db1 = (\<lambda>_. None, cur_counts db)"
    and inv1: "counters_wf db1" "branch_clean db1" "no_fault db1"
    using switchEpoch_shift [OF assms(3-5)] by blast
  have nf: "\<not> io_fault db1 (curKey nid)" using inv1(3) by (simp add: no_fault_def)
  have eq: "Confirmed cfg sigToPub db blk = setBlockAmount sigToPub db1 (blk_hash blk) (blk_header blk)"
    using True sw by (rule Confirmed_start)
  show ?thesis
    using setBlockAmount_ok_state [OF assms(1,2) nf inv1(2,1), of "blk_hash blk"]
      setBlockAmount_ok [OF assms(1) nf inv1(2,1), of "blk_hash blk"] c1 True inv1
    by (simp add: eq counts_of_def confirm_spec_def no_fault_def)
next
  case False
  have nf: "\<not> io_fault db (curKey nid)" using assms(3) by (simp add: no_fault_def)
  show ?thesis
    using setBlockAmount_ok_state [OF assms(1,2) nf assms(5,4), of "blk_hash blk"]
      setBlockAmount_ok [OF assms(1) nf assms(5,4), of "blk_hash blk"] False assms(3)
    by (simp add: Confirmed_no_start counts_of_def confirm_spec_def no_fault_def)
qed

text \<open>C1: a confirmed block refines the abstract step \<open>confirm_spec\<close>: at the
  first block of a round (block 1 excepted) the windows shift, and the producer's
  current count goes up by one; the store invariant is kept.\<close>

theorem Confirmed_refines:
  assumes "parseNodeId sigToPub (blk_header blk) = Inr nid" "length nid = node_id_len"
    and "no_fault db" "counters_wf db" "branch_clean db"
  shows "\<exists>db'. Confirmed cfg sigToPub db blk = (db', None)
     \<and> counts_of db' = confirm_spec cfg (hdr_number (blk_header blk)) nid (counts_of db)
     \<and> counters_wf db' \<and> branch_clean db' \<and> no_fault db'"
  using Confirmed_step [OF assms] .

theorem Confirmed_refines_witness:
  "parseNodeId sample_sig (blk_header (sample_block 251)) = Inr sample_node
   \<and> length sample_node = node_id_len \<and> no_fault empty_db \<and> counters_wf empty_db \<and> branch_clean empty_db
   \<and> (\<exists>db'. Confirmed default_config sample_sig empty_db (sample_block 251) = (db', None)
     \<and> counts_of db' = confirm_spec default_config (hdr_number (blk_header (sample_block 251))) sample_node
                        (counts_of empty_db)
     \<and> counters_wf db' \<and> branch_clean db' \<and> no_fault db')"
proof -
  have p: "parseNodeId sample_sig (blk_header (sample_block 251)) = Inr sample_node"
    by (simp add: sample_block_def parseNodeId_def sample_sig_def sample_header_def)
  show ?thesis
    using p Confirmed_refines [OF p sample_node_len empty_db_facts(6,3,2), of default_config] by simp
qed

section \<open>Confirmed on a failing store\<close>

text \<open>C21: Confirmed is not atomic either: at the first block of a round, when the
  rotation succeeds and the store then fails on the producer's counter, Confirmed
  returns that I/O error with the rotation already applied and the block not counted.\<close>

theorem Confirmed_error_after_rotation:
  assumes "is_round_start cfg (hdr_number (blk_header blk))" "switchEpoch db (blk_hash blk) = (db1, None)"
    and "parseNodeId sigToPub (blk_header blk) = Inr nid" "io_fault db1 (curKey nid)"
  shows "Confirmed cfg sigToPub db blk = (db1, Some (ErrIO (curKey nid)))"
  using assms
  by (simp add: Confirmed_def setBlockAmount_def getBlockAmount_def db_Get_def)

theorem Confirmed_error_after_rotation_witness:
  "Confirmed default_config sample_sig faulty_count_db (sample_block 251)
     = (faulty_count_db, Some (ErrIO (curKey sample_node)))"
proof -
  have sw: "switchEpoch faulty_count_db (blk_hash (sample_block 251)) = (faulty_count_db, None)"
    by (simp add: switchEpoch_def faulty_count_db_def db_WalkBaseDB_def empty_db_def)
  have rs: "is_round_start default_config (hdr_number (blk_header (sample_block 251)))"
    by (simp add: is_round_start_def default_config_def sample_block_def sample_header_def)
  have p: "parseNodeId sample_sig (blk_header (sample_block 251)) = Inr sample_node"
    by (simp add: sample_block_def parseNodeId_def sample_sig_def sample_header_def)
  show ?thesis
    using Confirmed_error_after_rotation [OF rs sw p] by (simp add: faulty_count_db_def)
qed

theorem switchEpoch_partial_failure_witness:
  "cur_counts faulty_rotation_db sample_node = Some 3
   \<and> (\<exists>db'. switchEpoch faulty_rotation_db [] = (db', Some (ErrIO (preKey sample_node)))
        \<and> cur_counts db' sample_node = None \<and> pre_counts db' sample_node = None)"
proof -
  have wf: "counters_wf faulty_rotation_db"
    by (simp add: faulty_rotation_db_def counters_wf_def kv_wf_def counter_entry_ok_curKey)
  have f: "io_fault faulty_rotation_db = (\<lambda>k. k = preKey sample_node)"
    by (simp add: faulty_rotation_db_def)
  have c: "cur_counts faulty_rotation_db sample_node = Some 3"
    by (simp add: faulty_rotation_db_def cur_counts_def counter_of_def base_lookup_def rlp_decode_encode_u16)
  have p: "pre_counts faulty_rotation_db sample_node = None"
    by (simp add: faulty_rotation_db_def pre_counts_def counter_of_def base_lookup_def)
  show ?thesis using c switchEpoch_partial_failure [OF wf f c p, of "[]"] by simp
qed

end
