(* ===== verification/Penalty.thy ===== *)
theory Penalty
  imports Slash_Prelude
begin

text \<open>
  The penalty amount and the staking ledger the plugin calls.  \<open>calcSlashAmount\<close>
  adds the four stake components of a candidate (staking.Candidate: Released,
  ReleasedHes, RestrictingPlan, RestrictingPlanHes, all big.Int) and divides by the
  rate (big.Int.SetUint64, so the integer value \<open>uint rate\<close>) with big.Int.Div, which is Euclidean division: for a positive divisor it is
  the floor, as HOL's \<open>div\<close> on \<open>int\<close>; a zero divisor makes Go panic.

  The staking ledger (x/staking, outside the plugin) is an interface: a record of the
  three functions the plugin calls, over an arbitrary ledger state \<open>'l\<close>
  (GetCandidateONRound, GetCandidateInfo, SlashCandidates).  The low-performance policy
  and the double-sign protocol are stated for every ledger; the examples instantiate it
  with a recording ledger that logs each slash and drops removed validators.
\<close>

section \<open>Candidates and the penalty amount\<close>

record candidate =
  cand_node_id :: node_id
  cand_address :: address
  cand_released :: int
  cand_released_hes :: int
  cand_restricting_plan :: int
  cand_restricting_plan_hes :: int

definition stake_sum :: "candidate \<Rightarrow> int" where
  "stake_sum c = cand_released c + cand_released_hes c + cand_restricting_plan c
                 + cand_restricting_plan_hes c"

definition calcSlashAmount :: "candidate \<Rightarrow> 64 word \<Rightarrow> error + int" where
  "calcSlashAmount candidate rate =
     (if rate = 0 then Inl (ErrPanic ''division by zero'')
      else Inr (stake_sum candidate div uint rate))"

section \<open>The staking ledger interface\<close>

text \<open>staking.LowRatio and staking.DoubleSign, the reasons passed to SlashCandidates.\<close>

datatype slash_reason = LowRatio | DoubleSign

record 'l staking =
  stk_get_candidate_on_round :: "hash \<Rightarrow> 64 word \<Rightarrow> 'l \<Rightarrow> error + candidate list"
  stk_get_candidate_info :: "hash \<Rightarrow> address \<Rightarrow> 'l \<Rightarrow> error + candidate"
  stk_slash :: "'l \<Rightarrow> hash \<Rightarrow> 64 word \<Rightarrow> node_id \<Rightarrow> int \<Rightarrow> bool \<Rightarrow> slash_reason \<Rightarrow> error + 'l"

section \<open>A recording ledger for the examples\<close>

text \<open>Its state is the active validator list and the log of slash calls; a slash with
  the removal flag drops the validator from the list.  An unknown address is an error.\<close>

record ledger =
  lg_validators :: "candidate list"
  lg_log :: "(node_id \<times> int \<times> bool \<times> slash_reason) list"

definition rec_slash :: "ledger \<Rightarrow> hash \<Rightarrow> 64 word \<Rightarrow> node_id \<Rightarrow> int \<Rightarrow> bool \<Rightarrow> slash_reason \<Rightarrow> error + ledger" where
  "rec_slash l h n nid amount isDelete reason =
     Inr (l\<lparr>lg_validators := (if isDelete then filter (\<lambda>c. cand_node_id c \<noteq> nid) (lg_validators l)
                              else lg_validators l),
           lg_log := lg_log l @ [(nid, amount, isDelete, reason)]\<rparr>)"

definition rec_info :: "hash \<Rightarrow> address \<Rightarrow> ledger \<Rightarrow> error + candidate" where
  "rec_info h a l =
     (case filter (\<lambda>c. cand_address c = a) (lg_validators l) of
        [] \<Rightarrow> Inl (ErrPlain ''candidate not found'')
      | c # _ \<Rightarrow> Inr c)"

definition rec_staking :: "ledger staking" where
  "rec_staking = \<lparr>stk_get_candidate_on_round = (\<lambda>h n l. Inr (lg_validators l)),
                  stk_get_candidate_info = rec_info,
                  stk_slash = rec_slash\<rparr>"

definition sample_candidate :: "node_id \<Rightarrow> address \<Rightarrow> int \<Rightarrow> candidate" where
  "sample_candidate nid a s = \<lparr>cand_node_id = nid, cand_address = a, cand_released = s,
     cand_released_hes = 0, cand_restricting_plan = 0, cand_restricting_plan_hes = 0\<rparr>"

section \<open>The penalty amount\<close>

lemma calcSlashAmount_pos: "0 < rate \<Longrightarrow> calcSlashAmount c rate = Inr (stake_sum c div uint rate)"
  by (simp add: calcSlashAmount_def)

lemma stake_sum_sample [simp]: "stake_sum (sample_candidate nid a s) = s"
  by (simp add: stake_sum_def sample_candidate_def)

text \<open>C24: for a positive rate the amount is the floor of stake / rate: it times the
  rate is at most the stake, and one more would exceed it; fractional remainders are
  not slashed.\<close>

theorem calcSlashAmount_floor:
  assumes "0 < rate"
  shows "\<exists>q. calcSlashAmount c rate = Inr q
     \<and> q * uint rate \<le> stake_sum c \<and> stake_sum c < (q + 1) * uint rate"
proof -
  define m where "m = uint rate"
  have r: "0 < m" using word_pos_uint_ge1 [OF assms] by (simp add: m_def)
  let ?q = "stake_sum c div m"
  have dm: "stake_sum c = ?q * m + stake_sum c mod m" by simp
  have "0 \<le> stake_sum c mod m" "stake_sum c mod m < m" using r by simp_all
  moreover have "(?q + 1) * m = ?q * m + m" by (simp add: distrib_right)
  ultimately have "?q * m \<le> stake_sum c" "stake_sum c < (?q + 1) * m"
    using dm by linarith+
  moreover have "calcSlashAmount c rate = Inr ?q"
    using assms by (simp add: calcSlashAmount_def m_def)
  ultimately show ?thesis by (auto simp: m_def)
qed

theorem calcSlashAmount_floor_witness:
  "0 < (20 :: 64 word)
   \<and> (\<exists>q. calcSlashAmount (sample_candidate [] [] 999) 20 = Inr q
        \<and> q * uint (20 :: 64 word) \<le> stake_sum (sample_candidate [] [] 999)
        \<and> stake_sum (sample_candidate [] [] 999) < (q + 1) * uint (20 :: 64 word))
   \<and> calcSlashAmount (sample_candidate [] [] 999) 20 = Inr 49
   \<and> calcSlashAmount (sample_candidate [] [] 1000) 20 = Inr 50
   \<and> calcSlashAmount (sample_candidate [] [] 0) 20 = Inr 0"
  using calcSlashAmount_floor [of "20 :: 64 word" "sample_candidate [] [] 999"]
  by (simp add: calcSlashAmount_def)

end
