(* ===== verification/Low_Performance.thy ===== *)
theory Low_Performance
  imports Round_Counter Penalty
begin

text \<open>
  The under-production policy of slashing_plugin.go.  At the election block of every
  round after the first, \<open>EndBlock\<close> reads the previous-round counts
  (\<open>GetPreNodeAmount\<close>), fetches the validators of the round from the staking ledger
  and, for each of them in list order, decides whether to slash, at which rate and
  whether to remove it (the body of the loop, \<open>slash_decision\<close>), and calls
  SlashCandidates with the amount \<open>calcSlashAmount\<close> gives.  The first failing
  ledger call ends the hook with its error.  \<open>BeginBlock\<close> does nothing.

  The lemmas show that \<open>GetPreNodeAmount\<close> returns exactly the previous window of
  the store, that the loop is a pipeline "decide, then apply the penalties in order",
  the exact tier table of the decision with the default configuration, and that for
  every configuration the decision is antitone in the count.
\<close>

section \<open>Thresholds and rates\<close>

definition blockAmountLow :: "16 word" where
  "blockAmountLow = 8"

definition blockAmountHigh :: "16 word" where
  "blockAmountHigh = 5"

definition blockAmountLowSlashing :: "64 word" where
  "blockAmountLowSlashing = 10"

definition blockAmountHighSlashing :: "64 word" where
  "blockAmountHighSlashing = 20"

text \<open>isAbnormal: fewer blocks than \<open>ConsensusSize / ConsValidatorNum\<close> (uint64
  division of the configuration constants; the count is widened to uint64).\<close>

definition isAbnormal :: "xcom_config \<Rightarrow> 16 word \<Rightarrow> bool" where
  "isAbnormal cfg amount \<longleftrightarrow>
     (ucast amount :: 64 word) < consensus_size cfg div cons_validator_num cfg"

section \<open>Previous-round counts\<close>

text \<open>The callback of the walk over \<open>"SlashPb"\<close>: decode the count, recover the
  node identity from the key, store it in the result map; the first failure aborts
  the walk.\<close>

fun collect_pre :: "(bytes \<times> bytes) list \<Rightarrow> (node_id \<Rightarrow> 16 word option) \<Rightarrow>
    error + (node_id \<Rightarrow> 16 word option)" where
  "collect_pre [] result = Inr result"
| "collect_pre ((key, value) # es) result =
     (case rlp_decode_u16 value of
        Inl e \<Rightarrow> Inl (ErrRlp e)
      | Inr amount \<Rightarrow>
          (case getNodeId preAbnormalPrefix key of
             Inl e \<Rightarrow> Inl e
           | Inr nodeId \<Rightarrow> collect_pre es (result(nodeId \<mapsto> amount))))"

definition GetPreNodeAmount :: "snapdb \<Rightarrow> error + (node_id \<Rightarrow> 16 word option)" where
  "GetPreNodeAmount db = collect_pre (db_WalkBaseDB db preAbnormalPrefix) Map.empty"

section \<open>The decision for one validator\<close>

text \<open>(isSlash, rate, isDelete) as the body of the loop in EndBlock computes them.
  A validator without a previous-round count is slashed at the high rate; its
  removal flag stays false.\<close>

definition slash_decision :: "xcom_config \<Rightarrow> (node_id \<Rightarrow> 16 word option) \<Rightarrow> node_id \<Rightarrow>
    bool \<times> 64 word \<times> bool" where
  "slash_decision cfg result nodeId =
     (case result nodeId of
        Some amount \<Rightarrow>
          (if isAbnormal cfg amount then
             (if amount \<le> blockAmountLow \<and> amount > blockAmountHigh
              then (True, blockAmountLowSlashing, False)
              else if amount \<le> blockAmountHigh then (True, blockAmountHighSlashing, True)
              else (False, 0, False))
           else (False, 0, False))
      | None \<Rightarrow> (True, blockAmountHighSlashing, False))"

section \<open>EndBlock and BeginBlock\<close>

fun slash_validators :: "'l staking \<Rightarrow> xcom_config \<Rightarrow> (node_id \<Rightarrow> 16 word option) \<Rightarrow> hash \<Rightarrow>
    64 word \<Rightarrow> 'l \<Rightarrow> candidate list \<Rightarrow> 'l outcome" where
  "slash_validators stk cfg result blockHash number st [] = (st, None)"
| "slash_validators stk cfg result blockHash number st (validator # vs) =
     (case slash_decision cfg result (cand_node_id validator) of
        (isSlash, rate, isDelete) \<Rightarrow>
          (if isSlash \<and> 0 < rate then
             (case calcSlashAmount validator rate of
                Inl e \<Rightarrow> (st, Some e)
              | Inr amount \<Rightarrow>
                  (case stk_slash stk st blockHash number (cand_node_id validator) amount isDelete LowRatio of
                     Inl e \<Rightarrow> (st, Some e)
                   | Inr st' \<Rightarrow> slash_validators stk cfg result blockHash number st' vs))
           else slash_validators stk cfg result blockHash number st vs))"

definition EndBlock :: "'l staking \<Rightarrow> xcom_config \<Rightarrow> snapdb \<Rightarrow> hash \<Rightarrow> header \<Rightarrow> 'l \<Rightarrow> 'l outcome" where
  "EndBlock stk cfg db blockHash hdr st =
     (if IsElection cfg (hdr_number hdr) \<and> consensus_size cfg < hdr_number hdr then
        (case GetPreNodeAmount db of
           Inl e \<Rightarrow> (st, Some e)
         | Inr result \<Rightarrow>
             (case stk_get_candidate_on_round stk blockHash (hdr_number hdr) st of
                Inl e \<Rightarrow> (st, Some e)
              | Inr validatorList \<Rightarrow> slash_validators stk cfg result blockHash (hdr_number hdr) st validatorList))
      else (st, None))"

definition BeginBlock :: "'l \<Rightarrow> 'l outcome" where
  "BeginBlock st = (st, None)"

section \<open>The loop as a pipeline\<close>

text \<open>The penalties the loop applies, in order: each penalised validator with its rate
  and removal flag.\<close>

definition low_ratio_penalties :: "xcom_config \<Rightarrow> (node_id \<Rightarrow> 16 word option) \<Rightarrow> candidate list \<Rightarrow>
    (candidate \<times> 64 word \<times> bool) list" where
  "low_ratio_penalties cfg result vs =
     concat (map (\<lambda>v. case slash_decision cfg result (cand_node_id v) of
                         (isSlash, rate, isDelete) \<Rightarrow>
                           if isSlash \<and> 0 < rate then [(v, rate, isDelete)] else []) vs)"

fun apply_penalties :: "'l staking \<Rightarrow> hash \<Rightarrow> 64 word \<Rightarrow> 'l \<Rightarrow> (candidate \<times> 64 word \<times> bool) list \<Rightarrow>
    'l outcome" where
  "apply_penalties stk h n st [] = (st, None)"
| "apply_penalties stk h n st ((v, rate, isDelete) # ps) =
     (case calcSlashAmount v rate of
        Inl e \<Rightarrow> (st, Some e)
      | Inr amount \<Rightarrow>
          (case stk_slash stk st h n (cand_node_id v) amount isDelete LowRatio of
             Inl e \<Rightarrow> (st, Some e)
           | Inr st' \<Rightarrow> apply_penalties stk h n st' ps))"

text \<open>A ledger whose only validator is the sample node, with stake 1000.\<close>

definition sample_ledger :: ledger where
  "sample_ledger = \<lparr>lg_validators = [sample_candidate sample_node [] 1000], lg_log = []\<rparr>"

text \<open>A store whose previous-round counter of the sample node holds \<open>0x81 0x05\<close>, a
  non-canonical encoding of 5 that the RLP decoder refuses.\<close>

definition corrupt_pre_db :: snapdb where
  "corrupt_pre_db = empty_db\<lparr>base_db := [(preKey sample_node, [0x81, 5])]\<rparr>"

section \<open>Previous-round counts: behaviour\<close>

text \<open>The walk callback, on entries that are well-formed counters with distinct keys,
  maps every node to the decoded value under its previous-round key.\<close>

lemma collect_pre_ok:
  assumes "\<forall>e \<in> set es. prefix preAbnormalPrefix (fst e) \<and> counter_entry_ok e"
    and "distinct (map fst es)"
  shows "collect_pre es m = Inr (\<lambda>n. case map_of es (preKey n) of
            Some v \<Rightarrow> (case rlp_decode_u16 v of Inl _ \<Rightarrow> None | Inr a \<Rightarrow> Some a)
          | None \<Rightarrow> m n)"
  using assms
proof (induction es arbitrary: m)
  case Nil
  then show ?case by simp
next
  case (Cons e es)
  obtain k v where e: "e = (k, v)" by (cases e)
  have pk: "prefix preAbnormalPrefix k" and ok: "counter_entry_ok (k, v)"
    using Cons.prems(1) e by auto
  then have len: "length k = 7 + node_id_len" and dec: "\<not> isl (rlp_decode_u16 v)"
    by (auto simp: counter_entry_ok_def counter_key_def)
  obtain a where a: "rlp_decode_u16 v = Inr a" using dec by (cases "rlp_decode_u16 v") auto
  define nid where "nid = drop 7 k"
  have k: "k = preKey nid" using pk by (simp add: nid_def prefix_pre_preKey)
  have nid: "getNodeId preAbnormalPrefix k = Inr nid"
    using len by (simp add: getNodeId_def BytesID_def nid_def)
  have fresh: "map_of es (preKey nid) = None"
    using Cons.prems(2) e k by (simp add: map_of_eq_None_iff)
  have IH: "collect_pre es (m(nid \<mapsto> a)) = Inr (\<lambda>n. case map_of es (preKey n) of
            Some v \<Rightarrow> (case rlp_decode_u16 v of Inl _ \<Rightarrow> None | Inr a \<Rightarrow> Some a)
          | None \<Rightarrow> (m(nid \<mapsto> a)) n)"
    using Cons.IH Cons.prems by simp
  show ?case
    using IH a nid fresh by (auto simp: e k fun_eq_iff split: option.split)
qed

text \<open>The walk over the previous-round prefix of a well-formed store collects the
  previous window.\<close>

lemma collect_pre_walk:
  assumes "counters_wf db"
  shows "collect_pre (db_WalkBaseDB db preAbnormalPrefix) Map.empty = Inr (pre_counts db)"
proof -
  let ?W = "db_WalkBaseDB db preAbnormalPrefix"
  have kv: "kv_wf (base_db db)" and all: "list_all counter_entry_ok (base_db db)"
    using assms by (simp_all add: counters_wf_def)
  have "\<forall>e \<in> set ?W. prefix preAbnormalPrefix (fst e) \<and> counter_entry_ok e"
    using all by (auto simp: db_WalkBaseDB_def list_all_iff)
  moreover have "distinct (map fst ?W)" using kv by (rule db_WalkBaseDB_distinct)
  ultimately have "collect_pre ?W Map.empty = Inr (\<lambda>n. case map_of ?W (preKey n) of
            Some v \<Rightarrow> (case rlp_decode_u16 v of Inl _ \<Rightarrow> None | Inr a \<Rightarrow> Some a)
          | None \<Rightarrow> None)"
    by (rule collect_pre_ok)
  then show ?thesis
    by (simp add: db_WalkBaseDB_map_of pre_counts_def counter_of_def fun_eq_iff)
qed

text \<open>C7: on a well-formed store GetPreNodeAmount never fails and returns exactly the
  previous window of counts.\<close>

theorem GetPreNodeAmount_refines:
  assumes "counters_wf db"
  shows "GetPreNodeAmount db = Inr (pre_counts db)"
  using collect_pre_walk [OF assms] by (simp add: GetPreNodeAmount_def)

theorem GetPreNodeAmount_refines_witness:
  "counters_wf (empty_db\<lparr>base_db := [(preKey sample_node, rlp_encode_u16 3)]\<rparr>)
   \<and> GetPreNodeAmount (empty_db\<lparr>base_db := [(preKey sample_node, rlp_encode_u16 3)]\<rparr>)
       = Inr (pre_counts (empty_db\<lparr>base_db := [(preKey sample_node, rlp_encode_u16 3)]\<rparr>))"
proof -
  have wf: "counters_wf (empty_db\<lparr>base_db := [(preKey sample_node, rlp_encode_u16 3)]\<rparr>)"
    by (simp add: counters_wf_def kv_wf_def counter_entry_ok_curKey)
  show ?thesis using wf GetPreNodeAmount_refines [OF wf] by simp
qed

text \<open>A walk the callback completes only met decodable values.\<close>

lemma collect_pre_Inr_decodes:
  "collect_pre es m = Inr r \<Longrightarrow> (k, v) \<in> set es \<Longrightarrow> \<not> isl (rlp_decode_u16 v)"
proof (induction es arbitrary: m)
  case (Cons e es)
  obtain key val where e: "e = (key, val)" by (cases e)
  obtain a nid where a: "rlp_decode_u16 val = Inr a" and nid: "getNodeId preAbnormalPrefix key = Inr nid"
    and rest: "collect_pre es (m(nid \<mapsto> a)) = Inr r"
    using Cons.prems(1) by (auto simp: e split: sum.splits)
  show ?case
    using Cons.prems(2) Cons.IH [OF rest] a by (auto simp: e)
qed simp

section \<open>The loop as a pipeline: behaviour\<close>

text \<open>The loop of EndBlock is the pipeline "decide every validator, then apply the
  penalties in validator-list order, stopping at the first failure".\<close>

lemma slash_validators_pipeline:
  "slash_validators stk cfg result h n st vs
   = apply_penalties stk h n st (low_ratio_penalties cfg result vs)"
proof (induction vs arbitrary: st)
  case Nil
  then show ?case by (simp add: low_ratio_penalties_def)
next
  case (Cons v vs)
  obtain isSlash rate isDelete where d: "slash_decision cfg result (cand_node_id v) = (isSlash, rate, isDelete)"
    by (cases "slash_decision cfg result (cand_node_id v)") auto
  show ?case
    using Cons d by (auto simp: low_ratio_penalties_def split: sum.split)
qed

section \<open>Thresholds\<close>

lemma unat_ucast_16_64 [slash_codec]: "unat (ucast (c :: 16 word) :: 64 word) = unat c"
  using unat_u16_lt[of c] by (simp add: unsigned_ucast_eq take_bit_eq_mod)

lemma isAbnormal_default: "isAbnormal default_config c \<longleftrightarrow> unat c < 10"
  by (simp add: isAbnormal_def default_config_def word_less_nat_alt unat_ucast_16_64)

lemma word16_le_iff: "(c :: 16 word) \<le> 8 \<longleftrightarrow> unat c \<le> 8" "(c :: 16 word) \<le> 5 \<longleftrightarrow> unat c \<le> 5"
  "(5 :: 16 word) < c \<longleftrightarrow> 5 < unat c"
  by (simp_all add: word_le_nat_alt word_less_nat_alt)

text \<open>C6: the tiers with the default configuration (250 blocks per round, 25
  validators, so the abnormality threshold is 10): no record means rate 20 without
  removal; 0 to 5 blocks rate 20 with removal; 6 to 8 blocks rate 10 without removal;
  9 blocks and more, no penalty, although 9 blocks is abnormal.\<close>

theorem slash_decision_default:
  "slash_decision default_config result n =
     (case result n of
        None \<Rightarrow> (True, 20, False)
      | Some c \<Rightarrow> if unat c \<le> 5 then (True, 20, True)
                  else if unat c \<le> 8 then (True, 10, False)
                  else (False, 0, False))"
proof (cases "result n")
  case None
  then show ?thesis by (simp add: slash_decision_def blockAmountHighSlashing_def)
next
  case (Some c)
  then show ?thesis
    by (auto simp: slash_decision_def isAbnormal_default blockAmountLow_def blockAmountHigh_def
        blockAmountLowSlashing_def blockAmountHighSlashing_def word16_le_iff)
qed

lemma isAbnormal_mono: "a \<le> b \<Longrightarrow> isAbnormal cfg b \<Longrightarrow> isAbnormal cfg a"
proof -
  assume ab: "a \<le> b" and ib: "isAbnormal cfg b"
  have "unat (ucast a :: 64 word) \<le> unat (ucast b :: 64 word)"
    using ab by (simp add: unat_ucast_16_64 word_le_nat_alt)
  then have "(ucast a :: 64 word) \<le> ucast b" by (simp add: word_le_nat_alt)
  then show "isAbnormal cfg a" using ib by (auto simp: isAbnormal_def)
qed

text \<open>C15: for every configuration the penalty never decreases as production falls: a
  validator with a previous-round count no larger than another's gets a rate at least
  as high, and is slashed, and removed, whenever the other is.\<close>

theorem slash_decision_antitone:
  assumes "a \<le> b"
    and "slash_decision cfg result n = (sb, rb, db)" "result n = Some b"
    and "slash_decision cfg result' m = (sa, ra, da)" "result' m = Some a"
  shows "rb \<le> ra \<and> (sb \<longrightarrow> sa) \<and> (db \<longrightarrow> da)"
  using assms isAbnormal_mono [OF assms(1), of cfg]
  by (auto simp: slash_decision_def blockAmountLow_def blockAmountHigh_def blockAmountLowSlashing_def
      blockAmountHighSlashing_def split: if_splits)

section \<open>EndBlock\<close>

text \<open>C2: on a well-formed store, EndBlock does nothing except at an election block
  after the first round; there it fetches the validators and applies, in list order,
  the penalties the previous window of counts decides, stopping at the first failure.\<close>

theorem EndBlock_spec:
  assumes "counters_wf db"
  shows "EndBlock stk cfg db h hdr st =
    (if IsElection cfg (hdr_number hdr) \<and> consensus_size cfg < hdr_number hdr then
       (case stk_get_candidate_on_round stk h (hdr_number hdr) st of
          Inl e \<Rightarrow> (st, Some e)
        | Inr vl \<Rightarrow> apply_penalties stk h (hdr_number hdr) st (low_ratio_penalties cfg (pre_counts db) vl))
     else (st, None))"
  using assms
  by (simp add: EndBlock_def GetPreNodeAmount_def collect_pre_walk slash_validators_pipeline split: sum.split)

lemma apply_penalties_append:
  "apply_penalties stk h n st (ps @ qs) =
     (case apply_penalties stk h n st ps of
        (st1, None) \<Rightarrow> apply_penalties stk h n st1 qs
      | (st1, Some e) \<Rightarrow> (st1, Some e))"
  by (induction stk h n st ps rule: apply_penalties.induct) (simp_all split: sum.split)

text \<open>C22: a corrupt previous-round counter blocks the whole policy: at an election
  block after the first round, if any base-layer entry under the previous-round prefix
  does not decode as a uint16, EndBlock returns an error before calling the ledger, so
  no validator is slashed and the ledger state is unchanged.\<close>

theorem EndBlock_corrupt_counter:
  assumes "IsElection cfg (hdr_number hdr)" "consensus_size cfg < hdr_number hdr"
    and "(k, v) \<in> set (base_db db)" "prefix preAbnormalPrefix k" "isl (rlp_decode_u16 v)"
  shows "\<exists>e. EndBlock stk cfg db h hdr st = (st, Some e)"
proof -
  have "(k, v) \<in> set (db_WalkBaseDB db preAbnormalPrefix)"
    using assms(3,4) by (simp add: db_WalkBaseDB_set)
  then have "\<forall>r. GetPreNodeAmount db \<noteq> Inr r"
    using assms(5) collect_pre_Inr_decodes by (fastforce simp: GetPreNodeAmount_def)
  then obtain e where "GetPreNodeAmount db = Inl e" by (cases "GetPreNodeAmount db") auto
  then show ?thesis using assms(1,2) by (simp add: EndBlock_def)
qed

theorem EndBlock_spec_witness:
  "counters_wf empty_db
   \<and> EndBlock rec_staking default_config empty_db [] (sample_header\<lparr>hdr_number := 480\<rparr>) sample_ledger =
    (if IsElection default_config (hdr_number (sample_header\<lparr>hdr_number := 480\<rparr>))
        \<and> consensus_size default_config < hdr_number (sample_header\<lparr>hdr_number := 480\<rparr>) then
       (case stk_get_candidate_on_round rec_staking [] (hdr_number (sample_header\<lparr>hdr_number := 480\<rparr>)) sample_ledger of
          Inl e \<Rightarrow> (sample_ledger, Some e)
        | Inr vl \<Rightarrow> apply_penalties rec_staking [] (hdr_number (sample_header\<lparr>hdr_number := 480\<rparr>)) sample_ledger
                     (low_ratio_penalties default_config (pre_counts empty_db) vl))
     else (sample_ledger, None))
   \<and> EndBlock rec_staking default_config empty_db [] (sample_header\<lparr>hdr_number := 480\<rparr>) sample_ledger
       = (sample_ledger\<lparr>lg_log := [(sample_node, 50, False, LowRatio)]\<rparr>, None)"
  using EndBlock_spec [of empty_db rec_staking default_config "[]" "sample_header\<lparr>hdr_number := 480\<rparr>" sample_ledger]
  by (simp add: IsElection_def default_config_def sample_header_def rec_staking_def sample_ledger_def
      low_ratio_penalties_def slash_decision_def blockAmountHighSlashing_def calcSlashAmount_def rec_slash_def
      sample_candidate_def stake_sum_def)

theorem EndBlock_corrupt_counter_witness:
  "\<exists>e. EndBlock rec_staking default_config corrupt_pre_db [] (sample_header\<lparr>hdr_number := 480\<rparr>) sample_ledger
       = (sample_ledger, Some e)"
  using EndBlock_corrupt_counter [where cfg = default_config and hdr = "sample_header\<lparr>hdr_number := 480\<rparr>"
      and k = "preKey sample_node" and v = "[0x81, 5]" and db = corrupt_pre_db and stk = rec_staking
      and h = "[]" and st = sample_ledger]
  by (simp add: IsElection_def default_config_def sample_header_def corrupt_pre_db_def prefix_pre_preKey
      rlp_decode_u16_def)

theorem slash_decision_antitone_witness:
  "slash_decision default_config [sample_node \<mapsto> 7] sample_node = (True, 10, False)
   \<and> slash_decision default_config [sample_node \<mapsto> 3] sample_node = (True, 20, True)
   \<and> (10 :: 64 word) \<le> 20"
proof -
  have b: "slash_decision default_config [sample_node \<mapsto> 7] sample_node = (True, 10, False)"
    and a: "slash_decision default_config [sample_node \<mapsto> 3] sample_node = (True, 20, True)"
    by (simp_all add: slash_decision_def isAbnormal_default blockAmountLow_def blockAmountHigh_def
        blockAmountLowSlashing_def blockAmountHighSlashing_def)
  have "(10 :: 64 word) \<le> 20"
    using slash_decision_antitone [of "3 :: 16 word" 7, OF _ b _ a] by simp
  then show ?thesis using a b by simp
qed

end
