(* ===== verification/Double_Sign.thy ===== *)
theory Double_Sign
  imports Round_Counter Penalty
begin

text \<open>
  The double-sign evidence protocol of slashing_plugin.go.  \<open>Slash\<close> decodes the
  evidence payload with the injected decoder (\<open>SetDecodeEvidenceFun\<close>; calling it
  before the decoder is set is a nil-function panic), then, for each evidence in
  order: runs its self-validation, refuses an evidence whose result record already
  exists (the business error "Punishment has been implemented"), looks the offender up
  in the staking ledger, slashes it with removal at the rate duplicateSignLowSlashing, and writes
  the result record (the transaction hash) under \<open>mutiSignKey\<close> in the slashing
  contract's storage.  The first failure ends the call; what earlier evidences wrote
  stays.  \<open>CheckMutiSign\<close> reads a record.

  The contract storage of the state database is a function from keys to byte
  strings, the empty string for an absent key (StateDB.GetState/SetState at
  vm.SlashingContractAddr); the ledger part of the state is the staking interface's
  state.  The lemmas show that the record key is injective, that a recorded
  misbehaviour is never slashed again, how a batch is processed (sequencing, partial
  commit), that records are never removed, and which ledger calls a successful Slash
  makes.
\<close>

section \<open>Constants, evidence and state\<close>

definition duplicateSignNum :: "16 word" where
  "duplicateSignNum = 2"

definition duplicateSignLowSlashing :: "64 word" where
  "duplicateSignLowSlashing = 10"

definition duplicateSignHighSlashing :: "64 word" where
  "duplicateSignHighSlashing = 20"

text \<open>The two error values of the plugin, by their messages (errMutiSignVerify is
  declared but never returned).\<close>

definition errMutiSignVerify :: string where
  "errMutiSignVerify = ''Multi-sign verification failed''"

definition errSlashExist :: string where
  "errSlashExist = ''Punishment has been implemented''"

text \<open>A decoded evidence (consensus.Evidence): the offender's address, the block
  number of the double sign, the evidence type as the int32 the plugin converts it to,
  the evidence hash, and the result of its \<open>Validate()\<close>.\<close>

record evidence =
  ev_address :: address
  ev_block_number :: "64 word"
  ev_type :: "32 word"
  ev_hash :: bytes
  ev_validate :: "error option"

record 'l state_db =
  sdb_slashing :: "bytes \<Rightarrow> bytes"
  sdb_tx_hash :: hash
  sdb_ledger :: 'l

text \<open>The plugin struct: the snapshot database and the injected evidence decoder,
  nil until SetDecodeEvidenceFun is called.\<close>

record slashing_plugin =
  sp_db :: snapdb
  sp_decode :: "(string \<Rightarrow> error + evidence list) option"

definition SlashInstance :: "snapdb \<Rightarrow> slashing_plugin" where
  "SlashInstance db = \<lparr>sp_db = db, sp_decode = None\<rparr>"

definition SetDecodeEvidenceFun :: "slashing_plugin \<Rightarrow> (string \<Rightarrow> error + evidence list) \<Rightarrow> slashing_plugin" where
  "SetDecodeEvidenceFun sp f = sp\<lparr>sp_decode := Some f\<rparr>"

section \<open>Result records\<close>

text \<open>Multi-signed result key: address, big-endian block number, \<open>"_"\<close>, big-endian
  \<open>uint64(etype)\<close> (sign-extended from int32).\<close>

definition mutiSignKey :: "address \<Rightarrow> 64 word \<Rightarrow> 32 word \<Rightarrow> bytes" where
  "mutiSignKey addr blockNumber etype =
     addr @ Uint64ToBytes blockNumber @ str_bytes ''_'' @ Uint64ToBytes (scast etype)"

definition getSlashResult :: "address \<Rightarrow> 64 word \<Rightarrow> 32 word \<Rightarrow> 'l state_db \<Rightarrow> bytes" where
  "getSlashResult addr blockNumber etype s = sdb_slashing s (mutiSignKey addr blockNumber etype)"

definition putSlashResult :: "address \<Rightarrow> 64 word \<Rightarrow> 32 word \<Rightarrow> 'l state_db \<Rightarrow> 'l state_db" where
  "putSlashResult addr blockNumber etype s =
     s\<lparr>sdb_slashing := (sdb_slashing s)(mutiSignKey addr blockNumber etype := sdb_tx_hash s)\<rparr>"

text \<open>CheckMutiSign returns (exists, value, nil).\<close>

definition CheckMutiSign :: "address \<Rightarrow> 64 word \<Rightarrow> 32 word \<Rightarrow> 'l state_db \<Rightarrow> bool \<times> bytes" where
  "CheckMutiSign addr blockNumber etype s =
     (let value = getSlashResult addr blockNumber etype s in
      if value \<noteq> [] then (True, value) else (False, []))"

section \<open>Slash\<close>

fun slash_evidences :: "'l staking \<Rightarrow> hash \<Rightarrow> 64 word \<Rightarrow> 'l state_db \<Rightarrow> evidence list \<Rightarrow>
    'l state_db outcome" where
  "slash_evidences stk blockHash blockNumber s [] = (s, None)"
| "slash_evidences stk blockHash blockNumber s (evidence # evs) =
     (case ev_validate evidence of
        Some e \<Rightarrow> (s, Some e)
      | None \<Rightarrow>
          (if getSlashResult (ev_address evidence) (ev_block_number evidence) (ev_type evidence) s \<noteq> []
           then (s, Some (ErrBiz errSlashExist))
           else
             (case stk_get_candidate_info stk blockHash (ev_address evidence) (sdb_ledger s) of
                Inl e \<Rightarrow> (s, Some e)
              | Inr candidate \<Rightarrow>
                  (case calcSlashAmount candidate duplicateSignLowSlashing of
                     Inl e \<Rightarrow> (s, Some e)
                   | Inr amount \<Rightarrow>
                       (case stk_slash stk (sdb_ledger s) blockHash blockNumber (cand_node_id candidate)
                               amount True DoubleSign of
                          Inl e \<Rightarrow> (s, Some e)
                        | Inr l' \<Rightarrow>
                            slash_evidences stk blockHash blockNumber
                              (putSlashResult (ev_address evidence) (ev_block_number evidence)
                                 (ev_type evidence) (s\<lparr>sdb_ledger := l'\<rparr>)) evs)))))"

definition Slash :: "'l staking \<Rightarrow> slashing_plugin \<Rightarrow> string \<Rightarrow> hash \<Rightarrow> 64 word \<Rightarrow> 'l state_db \<Rightarrow>
    'l state_db outcome" where
  "Slash stk sp data blockHash blockNumber s =
     (case sp_decode sp of
        None \<Rightarrow> (s, Some (ErrPanic ''invalid memory address or nil pointer dereference''))
      | Some decodeEvidence \<Rightarrow>
          (case decodeEvidence data of
             Inl e \<Rightarrow> (s, Some e)
           | Inr evidences \<Rightarrow>
               (if 0 < length evidences then slash_evidences stk blockHash blockNumber s evidences
                else (s, None))))"

section \<open>Sample data for the examples\<close>

definition sample_address :: address where
  "sample_address = replicate 20 1"

definition sample_evidence :: evidence where
  "sample_evidence = \<lparr>ev_address = sample_address, ev_block_number = 100, ev_type = 1,
                      ev_hash = [], ev_validate = None\<rparr>"

definition sample_state :: "ledger state_db" where
  "sample_state = \<lparr>sdb_slashing = (\<lambda>_. []), sdb_tx_hash = replicate 32 9,
     sdb_ledger = \<lparr>lg_validators = [sample_candidate sample_node sample_address 1000], lg_log = []\<rparr>\<rparr>"

definition invalid_evidence :: evidence where
  "invalid_evidence = sample_evidence\<lparr>ev_block_number := 101, ev_validate := Some (ErrPlain ''invalid signature'')\<rparr>"

definition once_plugin :: slashing_plugin where
  "once_plugin = SetDecodeEvidenceFun (SlashInstance empty_db) (\<lambda>_. Inr [sample_evidence])"

text \<open>The state after the sample evidence has been punished once.\<close>

definition sample_slashed :: "ledger state_db" where
  "sample_slashed = fst (slash_evidences rec_staking [] 200 sample_state [sample_evidence])"

lemmas sample_ds_defs = sample_evidence_def sample_state_def rec_staking_def rec_info_def
  rec_slash_def sample_candidate_def calcSlashAmount_def stake_sum_def duplicateSignLowSlashing_def
  getSlashResult_def putSlashResult_def CheckMutiSign_def SetDecodeEvidenceFun_def SlashInstance_def
  sample_slashed_def invalid_evidence_def

section \<open>The result key\<close>

text \<open>C25: the result key determines the misbehaviour it records: two keys are equal
  exactly when address, block number and evidence type are.\<close>

theorem mutiSignKey_inj:
  "mutiSignKey a1 b1 t1 = mutiSignKey a2 b2 t2 \<longleftrightarrow> a1 = a2 \<and> b1 = b2 \<and> t1 = t2"
proof
  assume eq: "mutiSignKey a1 b1 t1 = mutiSignKey a2 b2 t2"
  then have "length a1 = length a2"
    by (drule_tac f = length in arg_cong) (simp add: mutiSignKey_def str_bytes_def)
  with eq have a: "a1 = a2"
    and r: "Uint64ToBytes b1 @ str_bytes ''_'' @ Uint64ToBytes (scast t1)
          = Uint64ToBytes b2 @ str_bytes ''_'' @ Uint64ToBytes (scast t2)"
    by (simp_all add: mutiSignKey_def)
  from r have "b1 = b2" "(scast t1 :: 64 word) = scast t2"
    by (simp_all add: str_bytes_def)
  then show "a1 = a2 \<and> b1 = b2 \<and> t1 = t2" using a scast_32_64_inj by blast
qed simp

section \<open>Processing a batch\<close>

lemma slash_evidences_append:
  "slash_evidences stk h n s (xs @ ys) =
     (case slash_evidences stk h n s xs of
        (s1, None) \<Rightarrow> slash_evidences stk h n s1 ys
      | (s1, Some e) \<Rightarrow> (s1, Some e))"
proof (induction xs arbitrary: s)
  case Nil
  then show ?case by simp
next
  case (Cons x xs)
  then show ?case by (simp split: option.split sum.split prod.split)
qed

lemma slash_evidences_tx_hash:
  "sdb_tx_hash (fst (slash_evidences stk h n s evs)) = sdb_tx_hash s"
  by (induction evs arbitrary: s) (simp_all add: putSlashResult_def split: option.split sum.split)

text \<open>A successful step of the batch: every check of the loop body passed and the rest
  of the batch succeeded from the updated state.\<close>

fun_cases slash_evidences_ConsE: "slash_evidences stk h n s (ev # evs) = r"

lemma slash_evidences_Cons_ok:
  assumes "slash_evidences stk h n s (ev # evs) = (s', None)"
  obtains c amount l' where "ev_validate ev = None"
    "getSlashResult (ev_address ev) (ev_block_number ev) (ev_type ev) s = []"
    "stk_get_candidate_info stk h (ev_address ev) (sdb_ledger s) = Inr c"
    "calcSlashAmount c duplicateSignLowSlashing = Inr amount"
    "stk_slash stk (sdb_ledger s) h n (cand_node_id c) amount True DoubleSign = Inr l'"
    "slash_evidences stk h n (putSlashResult (ev_address ev) (ev_block_number ev) (ev_type ev)
       (s\<lparr>sdb_ledger := l'\<rparr>)) evs = (s', None)"
  using assms by (elim slash_evidences_ConsE) (auto split: option.splits if_splits sum.splits)

text \<open>A record that exists is never changed or removed.\<close>

lemma slash_evidences_keeps_records:
  "sdb_slashing s k \<noteq> [] \<Longrightarrow> sdb_slashing (fst (slash_evidences stk h n s evs)) k = sdb_slashing s k"
proof (induction evs arbitrary: s)
  case Nil
  then show ?case by simp
next
  case (Cons ev evs)
  let ?k = "mutiSignKey (ev_address ev) (ev_block_number ev) (ev_type ev)"
  show ?case
  proof (cases "ev_validate ev = None \<and> sdb_slashing s ?k = []")
    case True
    then have "k \<noteq> ?k" using Cons.prems by auto
    then show ?thesis
      using Cons True by (auto simp: getSlashResult_def putSlashResult_def split: sum.split)
  next
    case False
    then show ?thesis by (auto simp: getSlashResult_def split: option.split)
  qed
qed

text \<open>After a successful batch, every evidence of it has its record, holding the
  transaction hash.\<close>

lemma slash_evidences_records:
  assumes "slash_evidences stk h n s evs = (s', None)" "ev \<in> set evs" "sdb_tx_hash s \<noteq> []"
  shows "getSlashResult (ev_address ev) (ev_block_number ev) (ev_type ev) s' = sdb_tx_hash s"
  using assms
proof (induction evs arbitrary: s)
  case Nil
  then show ?case by simp
next
  case (Cons e evs)
  obtain l' where
    "slash_evidences stk h n (putSlashResult (ev_address e) (ev_block_number e) (ev_type e)
       (s\<lparr>sdb_ledger := l'\<rparr>)) evs = (s', None)"
    using Cons.prems(1) by (rule slash_evidences_Cons_ok)
  define s1 where "s1 = putSlashResult (ev_address e) (ev_block_number e) (ev_type e) (s\<lparr>sdb_ledger := l'\<rparr>)"
  have rest: "slash_evidences stk h n s1 evs = (s', None)"
    using \<open>slash_evidences stk h n _ evs = (s', None)\<close> by (simp add: s1_def)
  have tx: "sdb_tx_hash s1 = sdb_tx_hash s" by (simp add: s1_def putSlashResult_def)
  show ?case
  proof (cases "ev = e")
    case True
    have "getSlashResult (ev_address e) (ev_block_number e) (ev_type e) s1 = sdb_tx_hash s"
      by (simp add: s1_def getSlashResult_def putSlashResult_def)
    then show ?thesis
      using slash_evidences_keeps_records [of s1 "mutiSignKey (ev_address e) (ev_block_number e) (ev_type e)"
          stk h n evs] rest True Cons.prems(3)
      by (simp add: getSlashResult_def)
  next
    case False
    then have "ev \<in> set evs" using Cons.prems(2) by simp
    then show ?thesis using Cons.IH [OF rest] tx Cons.prems(3) by simp
  qed
qed

section \<open>Idempotency and partial commit\<close>

text \<open>C3: once a batch containing an evidence has been processed successfully, any
  later call whose next evidence names the same address, block number and type (in any
  transaction, at any block, against any ledger state) is refused with the business
  error "Punishment has been implemented" and changes nothing: the ledger's slash is not
  called again.\<close>

theorem slash_evidences_idempotent:
  assumes "slash_evidences stk h n s evs = (s', None)" "ev \<in> set evs" "sdb_tx_hash s \<noteq> []"
    and "ev_validate ev' = None" "ev_address ev' = ev_address ev"
    and "ev_block_number ev' = ev_block_number ev" "ev_type ev' = ev_type ev"
    and "sdb_slashing t = sdb_slashing s'"
  shows "slash_evidences stk' h' n' t (ev' # rest) = (t, Some (ErrBiz errSlashExist))"
proof -
  have "getSlashResult (ev_address ev) (ev_block_number ev) (ev_type ev) s' = sdb_tx_hash s"
    using assms(1-3) by (rule slash_evidences_records)
  then have "getSlashResult (ev_address ev') (ev_block_number ev') (ev_type ev') t \<noteq> []"
    using assms(3,5-8) by (simp add: getSlashResult_def)
  then show ?thesis using assms(4) by simp
qed

text \<open>C19: a batch is not rolled back: if the evidences before a duplicate were
  processed, the call returns the duplicate error with their slashes and records in
  place, and the evidences after it are not looked at.\<close>

theorem slash_evidences_partial_commit:
  assumes "slash_evidences stk h n s xs = (sm, None)" "sdb_tx_hash s \<noteq> []"
    and "ev_validate e = None" "getSlashResult (ev_address e) (ev_block_number e) (ev_type e) sm \<noteq> []"
  shows "slash_evidences stk h n s (xs @ e # ys) = (sm, Some (ErrBiz errSlashExist))
     \<and> (\<forall>x \<in> set xs. getSlashResult (ev_address x) (ev_block_number x) (ev_type x) sm = sdb_tx_hash s)"
  using assms slash_evidences_records [OF assms(1) _ assms(2)]
  by (simp add: slash_evidences_append)

text \<open>A failing evidence leaves the state as it found it.\<close>

lemma slash_evidences_single_failure:
  "slash_evidences stk h n s [e] = (s', Some err) \<Longrightarrow> s' = s"
  by (auto split: option.splits if_splits sum.splits)

text \<open>C20: each evidence is all or nothing and the batch stops at the first failure:
  if the evidences before it succeeded and an evidence fails on its own (validation,
  duplicate, unknown candidate, ledger error), the batch returns that error with the
  state the earlier evidences left, and no later evidence is processed.\<close>

theorem slash_evidences_stops_at_failure:
  assumes "slash_evidences stk h n s xs = (s_ok, None)" "slash_evidences stk h n s_ok [e] = (s_fail, Some err)"
  shows "s_fail = s_ok \<and> slash_evidences stk h n s (xs @ e # ys) = (s_ok, Some err)"
proof -
  have "s_fail = s_ok" using assms(2) by (rule slash_evidences_single_failure)
  moreover have "slash_evidences stk h n s_ok (e # ys) = (s_ok, Some err)"
    using assms(2) by (auto split: option.splits if_splits sum.splits)
  ultimately show ?thesis using assms(1) by (simp add: slash_evidences_append)
qed

text \<open>A call of Slash, successful or not, never changes or removes an existing
  result record.\<close>

lemma Slash_keeps_records:
  assumes "sdb_slashing s k \<noteq> []"
  shows "sdb_slashing (fst (Slash stk sp data h n s)) k = sdb_slashing s k"
  using assms slash_evidences_keeps_records [OF assms]
  by (simp add: Slash_def split: option.split sum.split)

text \<open>C23: after a successful Slash, CheckMutiSign reports every submitted evidence as
  punished, with the hash of the transaction that punished it.\<close>

theorem Slash_then_CheckMutiSign:
  assumes "sp_decode sp = Some dec" "dec data = Inr evs" "Slash stk sp data h n s = (s', None)"
    and "ev \<in> set evs" "sdb_tx_hash s \<noteq> []"
  shows "CheckMutiSign (ev_address ev) (ev_block_number ev) (ev_type ev) s' = (True, sdb_tx_hash s)"
proof -
  have "evs \<noteq> []" using assms(4) by auto
  then have "slash_evidences stk h n s evs = (s', None)"
    using assms(1-3) by (simp add: Slash_def)
  then have "getSlashResult (ev_address ev) (ev_block_number ev) (ev_type ev) s' = sdb_tx_hash s"
    using assms(4,5) by (rule slash_evidences_records)
  then show ?thesis using assms(5) by (simp add: CheckMutiSign_def)
qed

text \<open>The recording ledger logs the calls a batch makes.\<close>

lemma rec_info_address: "rec_info h a l = Inr c \<Longrightarrow> cand_address c = a"
  by (auto simp: rec_info_def filter_eq_Cons_iff split: list.splits)

lemma slash_evidences_rec_log:
  "slash_evidences rec_staking h n s evs = (s', None) \<Longrightarrow>
   \<exists>cs. list_all2 (\<lambda>ev c. cand_address c = ev_address ev) evs cs
     \<and> lg_log (sdb_ledger s') = lg_log (sdb_ledger s) @
          map (\<lambda>c. (cand_node_id c, stake_sum c div 10, True, DoubleSign)) cs"
proof (induction evs arbitrary: s)
  case Nil
  then show ?case by simp
next
  case (Cons ev evs)
  obtain c amount l' where i: "stk_get_candidate_info rec_staking h (ev_address ev) (sdb_ledger s) = Inr c"
    and a: "calcSlashAmount c duplicateSignLowSlashing = Inr amount"
    and sl: "stk_slash rec_staking (sdb_ledger s) h n (cand_node_id c) amount True DoubleSign = Inr l'"
    and rest: "slash_evidences rec_staking h n (putSlashResult (ev_address ev) (ev_block_number ev) (ev_type ev)
       (s\<lparr>sdb_ledger := l'\<rparr>)) evs = (s', None)"
    by (rule slash_evidences_Cons_ok [OF Cons.prems]) blast
  obtain cs where cs: "list_all2 (\<lambda>ev c. cand_address c = ev_address ev) evs cs"
    and log: "lg_log (sdb_ledger s') = lg_log l' @ map (\<lambda>c. (cand_node_id c, stake_sum c div 10, True, DoubleSign)) cs"
    using Cons.IH [OF rest] by (auto simp: putSlashResult_def)
  have "cand_address c = ev_address ev" using i by (simp add: rec_staking_def rec_info_address)
  moreover have "lg_log l' = lg_log (sdb_ledger s) @ [(cand_node_id c, stake_sum c div 10, True, DoubleSign)]"
    using a sl by (auto simp: rec_staking_def rec_slash_def calcSlashAmount_pos duplicateSignLowSlashing_def)
  ultimately show ?case using cs log by (intro exI [of _ "c # cs"]) simp
qed

text \<open>C17: every successful Slash calls SlashCandidates once per submitted evidence, in
  order, on the candidate the ledger returns for the evidence's address, taking a tenth
  of its stake (the rate duplicateSignLowSlashing = 10), with removal and the reason
  DoubleSign: with the recording ledger the log grows by exactly these calls.\<close>

theorem Slash_double_sign_penalty:
  assumes "sp_decode sp = Some dec" "dec data = Inr evs" "Slash rec_staking sp data h n s = (s', None)"
  shows "\<exists>cs. list_all2 (\<lambda>ev c. cand_address c = ev_address ev) evs cs
     \<and> lg_log (sdb_ledger s') = lg_log (sdb_ledger s) @
          map (\<lambda>c. (cand_node_id c, stake_sum c div 10, True, DoubleSign)) cs"
proof (cases "evs = []")
  case True
  then show ?thesis using assms by (simp add: Slash_def)
next
  case False
  then have "slash_evidences rec_staking h n s evs = (s', None)"
    using assms by (simp add: Slash_def)
  then show ?thesis by (rule slash_evidences_rec_log)
qed

section \<open>Witnesses\<close>

theorem slash_evidences_idempotent_witness:
  "slash_evidences rec_staking [] 300 sample_slashed [sample_evidence]
     = (sample_slashed, Some (ErrBiz errSlashExist))"
  using slash_evidences_idempotent [where stk = rec_staking and h = "[]" and n = 200 and s = sample_state
      and evs = "[sample_evidence]" and s' = sample_slashed and ev = sample_evidence
      and ev' = sample_evidence and t = sample_slashed and stk' = rec_staking and h' = "[]"
      and n' = 300 and rest = "[]"]
  by (simp add: sample_ds_defs)

theorem slash_evidences_partial_commit_witness:
  "slash_evidences rec_staking [] 200 sample_state ([sample_evidence] @ sample_evidence # [sample_evidence])
     = (sample_slashed, Some (ErrBiz errSlashExist))
   \<and> getSlashResult sample_address 100 1 sample_slashed = replicate 32 9"
  using slash_evidences_partial_commit [where stk = rec_staking and h = "[]" and n = 200 and s = sample_state
      and xs = "[sample_evidence]" and sm = sample_slashed and e = sample_evidence
      and ys = "[sample_evidence]"]
  by (simp add: sample_ds_defs)

theorem Slash_then_CheckMutiSign_witness:
  "CheckMutiSign sample_address 100 1 (fst (Slash rec_staking once_plugin ''payload'' [] 200 sample_state))
     = (True, replicate 32 9)"
  using Slash_then_CheckMutiSign [where sp = once_plugin and dec = "\<lambda>_. Inr [sample_evidence]"
      and data = "''payload''" and evs = "[sample_evidence]" and stk = rec_staking and h = "[]" and n = 200
      and s = sample_state and s' = "fst (Slash rec_staking once_plugin ''payload'' [] 200 sample_state)"
      and ev = sample_evidence]
  by (simp add: sample_ds_defs once_plugin_def Slash_def)

theorem slash_evidences_stops_at_failure_witness:
  "slash_evidences rec_staking [] 200 sample_state [sample_evidence, invalid_evidence, sample_evidence]
     = (sample_slashed, Some (ErrPlain ''invalid signature''))"
proof -
  have "sample_slashed = sample_slashed \<and>
      slash_evidences rec_staking [] 200 sample_state ([sample_evidence] @ invalid_evidence # [sample_evidence])
        = (sample_slashed, Some (ErrPlain ''invalid signature''))"
    using slash_evidences_stops_at_failure [where stk = rec_staking and h = "[]" and n = 200 and s = sample_state
        and xs = "[sample_evidence]" and s_ok = sample_slashed and e = invalid_evidence and s_fail = sample_slashed
        and err = "ErrPlain ''invalid signature''" and ys = "[sample_evidence]"]
    by (simp add: sample_ds_defs)
  then show ?thesis by simp
qed

theorem Slash_double_sign_penalty_witness:
  "\<exists>cs. list_all2 (\<lambda>ev c. cand_address c = ev_address ev) [sample_evidence] cs
     \<and> lg_log (sdb_ledger (fst (Slash rec_staking once_plugin ''payload'' [] 200 sample_state)))
        = lg_log (sdb_ledger sample_state) @ map (\<lambda>c. (cand_node_id c, stake_sum c div 10, True, DoubleSign)) cs"
proof -
  have run: "Slash rec_staking once_plugin ''payload'' [] 200 sample_state
      = (fst (Slash rec_staking once_plugin ''payload'' [] 200 sample_state), None)"
    by (simp add: Slash_def once_plugin_def sample_ds_defs)
  show ?thesis
    using Slash_double_sign_penalty [where sp = once_plugin and dec = "\<lambda>_. Inr [sample_evidence]"
        and data = "''payload''" and evs = "[sample_evidence]", OF _ _ run]
    by (simp add: once_plugin_def SetDecodeEvidenceFun_def SlashInstance_def)
qed

end
