(* ===== verification/Walk_Loop.thy ===== *)
theory Walk_Loop
  imports Epoch_Rotation Low_Performance "HOL-Library.While_Combinator"
begin

text \<open>
  The WalkBaseDB callbacks of slashing_plugin.go as the loops they are written as:
  \<open>for iter.Next() { ... }\<close> over the iterator the store hands the callback, with an
  early \<open>return err\<close> from the body.  \<open>walk_loop\<close> runs such a loop with
  While_Combinator's \<open>while_option\<close> over the state (callback state, iterator
  position, error); the bodies are \<open>delete_body\<close> and \<open>move_body\<close> (switchEpoch) and
  \<open>collect_body\<close> (GetPreNodeAmount).  The lemmas show that every such loop terminates,
  whatever its body, and that the loop forms compute exactly what the structural
  recursions \<open>delete_walked\<close>, \<open>move_walked\<close> and \<open>collect_pre\<close> compute, so the
  results proved for those hold for the code as written.
\<close>

section \<open>The iterator loop\<close>

text \<open>The loop state: what the callback has built so far, the number of entries the
  iterator has handed out, and the error the body returned, if any.  \<open>iter.Next()\<close>
  is true while entries remain; the loop also stops once the body returned an error.\<close>

type_synonym 's walk_state = "'s \<times> nat \<times> error option"

definition walk_cond :: "(bytes \<times> bytes) list \<Rightarrow> 's walk_state \<Rightarrow> bool" where
  "walk_cond es w = (case w of (s, i, err) \<Rightarrow> err = None \<and> i < length es)"

definition walk_step :: "('s \<Rightarrow> bytes \<times> bytes \<Rightarrow> 's outcome) \<Rightarrow> (bytes \<times> bytes) list \<Rightarrow>
    's walk_state \<Rightarrow> 's walk_state" where
  "walk_step body es w =
     (case w of (s, i, err) \<Rightarrow>
        (case body s (es ! i) of
           (s', None) \<Rightarrow> (s', Suc i, None)
         | (s', Some e) \<Rightarrow> (s', i, Some e)))"

definition walk_loop :: "('s \<Rightarrow> bytes \<times> bytes \<Rightarrow> 's outcome) \<Rightarrow> (bytes \<times> bytes) list \<Rightarrow> 's \<Rightarrow>
    's outcome option" where
  "walk_loop body es s =
     map_option (\<lambda>(s', i, err). (s', err)) (while_option (walk_cond es) (walk_step body es) (s, 0, None))"

text \<open>The same loop as structural recursion over the entries.\<close>

fun walk_fold :: "('s \<Rightarrow> bytes \<times> bytes \<Rightarrow> 's outcome) \<Rightarrow> 's \<Rightarrow> (bytes \<times> bytes) list \<Rightarrow> 's outcome" where
  "walk_fold body s [] = (s, None)"
| "walk_fold body s (e # es) =
     (case body s e of
        (s', None) \<Rightarrow> walk_fold body s' es
      | (s', Some err) \<Rightarrow> (s', Some err))"

section \<open>The loop bodies\<close>

text \<open>First walk of switchEpoch: delete the key the iterator is on.\<close>

definition delete_body :: "snapdb \<Rightarrow> bytes \<times> bytes \<Rightarrow> snapdb outcome" where
  "delete_body db e =
     (case db_DelBaseDB db (fst e) of
        Inl err \<Rightarrow> (db, Some err)
      | Inr db' \<Rightarrow> (db', None))"

text \<open>Second walk: delete the current-round key, then put the value under the
  previous-round key of the same node.\<close>

definition move_body :: "snapdb \<Rightarrow> bytes \<times> bytes \<Rightarrow> snapdb outcome" where
  "move_body db e =
     (case e of (key, value) \<Rightarrow>
        (case db_DelBaseDB db key of
           Inl err \<Rightarrow> (db, Some err)
         | Inr db1 \<Rightarrow>
             (case db_PutBaseDB db1 (preKey (drop (length curAbnormalPrefix) key)) value of
                Inl err \<Rightarrow> (db1, Some err)
              | Inr db2 \<Rightarrow> (db2, None))))"

text \<open>The walk of GetPreNodeAmount: decode the count, recover the node, record it.\<close>

definition collect_body :: "(node_id \<Rightarrow> 16 word option) \<Rightarrow> bytes \<times> bytes \<Rightarrow>
    (node_id \<Rightarrow> 16 word option) outcome" where
  "collect_body result e =
     (case e of (key, value) \<Rightarrow>
        (case rlp_decode_u16 value of
           Inl err \<Rightarrow> (result, Some (ErrRlp err))
         | Inr amount \<Rightarrow>
             (case getNodeId preAbnormalPrefix key of
                Inl err \<Rightarrow> (result, Some err)
              | Inr nodeId \<Rightarrow> (result(nodeId \<mapsto> amount), None))))"

section \<open>switchEpoch and GetPreNodeAmount with the loops\<close>

definition switchEpoch_loop :: "snapdb \<Rightarrow> hash \<Rightarrow> snapdb outcome option" where
  "switchEpoch_loop db blockHash =
     (case walk_loop delete_body (db_WalkBaseDB db preAbnormalPrefix) db of
        None \<Rightarrow> None
      | Some (db1, Some err) \<Rightarrow> Some (db1, Some err)
      | Some (db1, None) \<Rightarrow> walk_loop move_body (db_WalkBaseDB db1 curAbnormalPrefix) db1)"

definition GetPreNodeAmount_loop :: "snapdb \<Rightarrow> (error + (node_id \<Rightarrow> 16 word option)) option" where
  "GetPreNodeAmount_loop db =
     map_option (\<lambda>(result, err). case err of None \<Rightarrow> Inr result | Some e \<Rightarrow> Inl e)
       (walk_loop collect_body (db_WalkBaseDB db preAbnormalPrefix) Map.empty)"

section \<open>The loop and the recursion\<close>

lemma walk_loop_from:
  "map_option (\<lambda>(s', i', err). (s', err)) (while_option (walk_cond es) (walk_step body es) (s, i, None))
   = Some (walk_fold body s (drop i es))"
proof (induction "length es - i" arbitrary: s i)
  case 0
  then show ?case by (simp add: while_option_unfold [of _ _ "(s, i, None)"] walk_cond_def)
next
  case (Suc d)
  then have i: "i < length es" and d: "d = length es - Suc i" by simp_all
  have drop: "drop i es = es ! i # drop (Suc i) es" using i by (rule Cons_nth_drop_Suc [symmetric])
  show ?case
  proof (cases "body s (es ! i)")
    case (Pair s' r)
    show ?thesis
    proof (cases r)
      case None
      then show ?thesis
        using Suc.hyps(1) [OF d, of s'] i Pair
        by (simp add: while_option_unfold [of _ _ "(s, i, None)"] walk_cond_def walk_step_def drop)
    next
      case (Some e)
      then show ?thesis
        using i Pair
        by (simp add: while_option_unfold [of _ _ "(s, i, None)"] while_option_unfold [of _ _ "(s', i, Some e)"]
            walk_cond_def walk_step_def drop)
    qed
  qed
qed

lemma walk_loop_fold: "walk_loop body es s = Some (walk_fold body s es)"
  using walk_loop_from [of es body s 0] by (simp add: walk_loop_def)

lemma delete_walked_fold: "delete_walked db es = walk_fold delete_body db es"
  by (induction db es rule: delete_walked.induct) (simp_all add: delete_body_def split: sum.split)

lemma move_walked_fold: "move_walked db es = walk_fold move_body db es"
  by (induction db es rule: move_walked.induct) (simp_all add: move_body_def split: sum.split)

lemma collect_pre_fold:
  "collect_pre es m = (case walk_fold collect_body m es of (r, None) \<Rightarrow> Inr r | (r, Some e) \<Rightarrow> Inl e)"
proof (induction es arbitrary: m)
  case (Cons e es)
  obtain key val where e: "e = (key, val)" by (cases e)
  show ?case
  proof (cases "rlp_decode_u16 val")
    case (Inl err)
    then show ?thesis by (simp add: e collect_body_def)
  next
    case (Inr amount)
    show ?thesis
    proof (cases "getNodeId preAbnormalPrefix key")
      case (Inl err)
      then show ?thesis using Inr by (simp add: e collect_body_def)
    next
      case (Inr nid)
      have "collect_body m e = (m(nid \<mapsto> amount), None)"
        using Inr \<open>rlp_decode_u16 val = Inr amount\<close> by (simp add: e collect_body_def)
      then have "walk_fold collect_body m (e # es) = walk_fold collect_body (m(nid \<mapsto> amount)) es"
        by simp
      moreover have "collect_pre (e # es) m = collect_pre es (m(nid \<mapsto> amount))"
        using Inr \<open>rlp_decode_u16 val = Inr amount\<close> by (simp add: e)
      ultimately show ?thesis using Cons.IH [of "m(nid \<mapsto> amount)"] by (simp only:)
    qed
  qed
qed simp

text \<open>Every iterator loop of the plugin terminates: for every loop body and every
  list of walked entries, the \<open>for iter.Next()\<close> loop stops, either when the iterator is
  exhausted or at the first error of the body.\<close>

lemma walk_loop_terminates: "\<exists>r. walk_loop body es s = Some r"
proof -
  have "\<exists>t. while_option (walk_cond es) (walk_step body es) (s, 0, None) = Some t"
  proof (rule measure_while_option_Some [where P = "\<lambda>_. True"
        and f = "\<lambda>(s', i, err). length es - i + (if err = None then 1 else 0)"])
    fix w :: "'a walk_state"
    assume "walk_cond es w"
    then show "True \<and> (case walk_step body es w of (s', i, err) \<Rightarrow> length es - i + (if err = None then 1 else 0))
                      < (case w of (s', i, err) \<Rightarrow> length es - i + (if err = None then 1 else 0))"
      by (cases w) (auto simp: walk_cond_def walk_step_def split: prod.split option.split)
  qed simp
  then show ?thesis by (auto simp: walk_loop_def)
qed

text \<open>switchEpoch written with its two iterator loops computes exactly the
  structural model: the same store and the same error, on every input, faults
  included.\<close>

lemma switchEpoch_loop_equiv: "switchEpoch_loop db h = Some (switchEpoch db h)"
  by (simp add: switchEpoch_loop_def switchEpoch_def walk_loop_fold delete_walked_fold move_walked_fold
      split: prod.split option.split)

text \<open>GetPreNodeAmount written with its iterator loop computes exactly the
  structural model, on every store: the same map of counts or the same first error.\<close>

lemma GetPreNodeAmount_loop_equiv: "GetPreNodeAmount_loop db = Some (GetPreNodeAmount db)"
  by (simp add: GetPreNodeAmount_loop_def GetPreNodeAmount_def walk_loop_fold collect_pre_fold
      split: prod.split option.split)

end
