(* ===== verification/Plugin_System.thy ===== *)
theory Plugin_System
  imports Epoch_Rotation Low_Performance Double_Sign
begin

text \<open>
  The plugin as one state machine, as the chain drives it: the snapshot store of the
  round counters and the state database (slashing records, the staking ledger, the
  hash of the running transaction).  An \<open>event\<close> is one call into the plugin:
  Confirmed for a confirmed block, BeginBlock and EndBlock during block execution, and
  Slash from a transaction.  \<open>sys_step\<close> applies the hook to the part of the state it
  works on and returns the state it leaves together with its error; a failing hook
  still leaves the writes it made, as in Go.  \<open>sys_reach\<close> is the set of states
  reachable by any sequence of events, failing ones included.  The lemmas show, by
  rule induction, that the store stays well-typed (every counter key a prefix and a
  64-byte node identity holding a decodable uint16) under every sequence of events and
  every pattern of I/O faults, and that a slashing record, once written, never changes.
  The package globals \<open>once\<close> and \<open>slashPlugin\<close> are modelled too
  (\<open>SlashInstance_once\<close>): the plugin is a singleton whose decoder, once set, every
  later SlashInstance call sees, which is why the system has one plugin value.
\<close>

section \<open>State, events and steps\<close>

record 'l plugin_state =
  ps_db :: snapdb
  ps_state :: "'l state_db"

datatype event =
    EvConfirmed block
  | EvBeginBlock hash header
  | EvEndBlock hash header
  | EvSlash string hash "64 word" hash

text \<open>\<open>EvSlash data blockHash blockNumber txHash\<close>: a transaction with hash \<open>txHash\<close>
  calls Slash; the state database it runs against carries that hash.\<close>

definition sys_step :: "'l staking \<Rightarrow> xcom_config \<Rightarrow> sig_recover \<Rightarrow> slashing_plugin \<Rightarrow>
    'l plugin_state \<Rightarrow> event \<Rightarrow> 'l plugin_state outcome" where
  "sys_step stk cfg sigToPub sp s ev =
     (case ev of
        EvConfirmed blk \<Rightarrow>
          (case Confirmed cfg sigToPub (ps_db s) blk of (db', r) \<Rightarrow> (s\<lparr>ps_db := db'\<rparr>, r))
      | EvBeginBlock h hdr \<Rightarrow>
          (case BeginBlock (sdb_ledger (ps_state s)) of
             (l', r) \<Rightarrow> (s\<lparr>ps_state := (ps_state s)\<lparr>sdb_ledger := l'\<rparr>\<rparr>, r))
      | EvEndBlock h hdr \<Rightarrow>
          (case EndBlock stk cfg (ps_db s) h hdr (sdb_ledger (ps_state s)) of
             (l', r) \<Rightarrow> (s\<lparr>ps_state := (ps_state s)\<lparr>sdb_ledger := l'\<rparr>\<rparr>, r))
      | EvSlash data h n tx \<Rightarrow>
          (case Slash stk sp data h n ((ps_state s)\<lparr>sdb_tx_hash := tx\<rparr>) of
             (st', r) \<Rightarrow> (s\<lparr>ps_state := st'\<rparr>, r)))"

inductive sys_reach :: "'l staking \<Rightarrow> xcom_config \<Rightarrow> sig_recover \<Rightarrow> slashing_plugin \<Rightarrow>
    'l plugin_state \<Rightarrow> 'l plugin_state \<Rightarrow> bool"
  for stk cfg sigToPub sp where
  refl: "sys_reach stk cfg sigToPub sp s s"
| step: "sys_reach stk cfg sigToPub sp s0 s \<Longrightarrow> sys_step stk cfg sigToPub sp s ev = (s', r) \<Longrightarrow>
         sys_reach stk cfg sigToPub sp s0 s'"

text \<open>discover.PubkeyID returns a NodeID, a 64-byte array: every identity the
  signature recovery yields has that length.\<close>

definition sig_ok :: "sig_recover \<Rightarrow> bool" where
  "sig_ok sigToPub \<longleftrightarrow> (\<forall>h s n. sigToPub h s = Inr n \<longrightarrow> length n = node_id_len)"

text \<open>The store invariant of the system: the counter typing and the clean overlays.\<close>

definition store_ok :: "snapdb \<Rightarrow> bool" where
  "store_ok db \<longleftrightarrow> counters_wf db \<and> branch_clean db"

section \<open>The plugin singleton\<close>

text \<open>The package globals \<open>once = sync.Once{}\<close> and \<open>var slashPlugin *SlashingPlugin\<close>
  (nil at start).\<close>

record plugin_globals =
  g_once_done :: bool
  g_slashPlugin :: "slashing_plugin option"

definition initial_globals :: plugin_globals where
  "initial_globals = \<lparr>g_once_done = False, g_slashPlugin = None\<rparr>"

text \<open>SlashInstance(): the first call builds the plugin on the snapshot database
  instance; every call returns the global pointer.\<close>

definition SlashInstance_once :: "snapdb \<Rightarrow> plugin_globals \<Rightarrow> plugin_globals \<times> slashing_plugin option" where
  "SlashInstance_once db g =
     (let g' = (if g_once_done g then g
                else g\<lparr>g_once_done := True, g_slashPlugin := Some (SlashInstance db)\<rparr>)
      in (g', g_slashPlugin g'))"

text \<open>\<open>SlashInstance().SetDecodeEvidenceFun(f)\<close>: the decoder is stored in the one
  plugin the global points to; through a nil pointer Go panics.\<close>

definition SetDecodeEvidenceFun_global :: "plugin_globals \<Rightarrow> (string \<Rightarrow> error + evidence list) \<Rightarrow>
    error + plugin_globals" where
  "SetDecodeEvidenceFun_global g f =
     (case g_slashPlugin g of
        None \<Rightarrow> Inl (ErrPanic ''invalid memory address or nil pointer dereference'')
      | Some sp \<Rightarrow> Inr (g\<lparr>g_slashPlugin := Some (SetDecodeEvidenceFun sp f)\<rparr>))"

text \<open>The calls a node makes on the package: \<open>SlashInstance()\<close> (with the snapshot
  database \<open>snapshotdb.Instance()\<close> returns at that moment) and
  \<open>SlashInstance().SetDecodeEvidenceFun(f)\<close>, in any order and number; a call that
  panics on a nil plugin changes no global.  \<open>last_decoder\<close> is the decoder the last
  SetDecodeEvidenceFun of a sequence sets, and \<open>globals_ok\<close> the invariant that the
  once flag is set exactly when the plugin pointer is not nil.\<close>

datatype global_call =
    CallSlashInstance snapdb
  | CallSetDecodeEvidenceFun "string \<Rightarrow> error + evidence list"

definition globals_step :: "plugin_globals \<Rightarrow> global_call \<Rightarrow> plugin_globals" where
  "globals_step g c =
     (case c of
        CallSlashInstance db \<Rightarrow> fst (SlashInstance_once db g)
      | CallSetDecodeEvidenceFun f \<Rightarrow>
          (case SetDecodeEvidenceFun_global g f of Inl e \<Rightarrow> g | Inr g' \<Rightarrow> g'))"

definition globals_run :: "plugin_globals \<Rightarrow> global_call list \<Rightarrow> plugin_globals" where
  "globals_run g cs = foldl globals_step g cs"

definition last_decoder :: "(string \<Rightarrow> error + evidence list) option \<Rightarrow> global_call list \<Rightarrow>
    (string \<Rightarrow> error + evidence list) option" where
  "last_decoder d cs =
     foldl (\<lambda>d c. case c of CallSetDecodeEvidenceFun f \<Rightarrow> Some f | CallSlashInstance db \<Rightarrow> d) d cs"

definition globals_ok :: "plugin_globals \<Rightarrow> bool" where
  "globals_ok g \<longleftrightarrow> (g_once_done g \<longleftrightarrow> g_slashPlugin g \<noteq> None)"

section \<open>Sample system\<close>

definition sample_system :: "ledger plugin_state" where
  "sample_system = \<lparr>ps_db = empty_db, ps_state = sample_state\<rparr>"

text \<open>The sample system after the sample evidence has been punished, and the
  event of a second transaction submitting it again.\<close>

definition slashed_system :: "ledger plugin_state" where
  "slashed_system = \<lparr>ps_db = empty_db, ps_state = sample_slashed\<rparr>"

definition resubmit_event :: event where
  "resubmit_event = EvSlash ''payload'' [] 300 (replicate 32 5)"

lemmas sys_reach_step_intro = sys_reach.step [OF _ prod.collapse [symmetric]]

section \<open>The store invariant under every hook\<close>

lemma not_isl_Inr: "\<not> isl x \<longleftrightarrow> (\<exists>a. x = Inr a)"
  by (cases x) auto

lemma store_ok_del:
  "db_DelBaseDB db k = Inr db' \<Longrightarrow> store_ok db \<Longrightarrow> store_ok db'"
  by (auto simp: store_ok_def db_DelBaseDB_Inr counters_wf_del branch_clean_base)

lemma store_ok_put:
  "db_PutBaseDB db k v = Inr db' \<Longrightarrow> counter_entry_ok (k, v) \<Longrightarrow> store_ok db \<Longrightarrow> store_ok db'"
  by (auto simp: store_ok_def db_PutBaseDB_Inr counters_wf_put_encode branch_clean_base)

lemma delete_walked_store_ok: "store_ok db \<Longrightarrow> store_ok (fst (delete_walked db es))"
proof (induction db es rule: delete_walked.induct)
  case (2 db e es)
  then show ?case by (auto intro: store_ok_del split: sum.split)
qed simp

text \<open>A walked current-round entry moves to a well-typed previous-round entry.\<close>

lemma counter_entry_ok_moved:
  assumes "prefix curAbnormalPrefix key" "counter_entry_ok (key, value)"
  shows "counter_entry_ok (preKey (drop (length curAbnormalPrefix) key), value)"
proof -
  have "length key = 7 + node_id_len" "\<not> isl (rlp_decode_u16 value)"
    using assms by (auto simp: counter_entry_ok_def counter_key_def)
  then show ?thesis
    by (simp add: counter_entry_ok_def counter_key_def preKey_def node_id_len_def)
qed

lemma move_walked_store_ok:
  "store_ok db \<Longrightarrow> \<forall>e \<in> set es. prefix curAbnormalPrefix (fst e) \<and> counter_entry_ok e \<Longrightarrow>
   store_ok (fst (move_walked db es))"
proof (induction db es rule: move_walked.induct)
  case (2 db key val es)
  have hd: "prefix curAbnormalPrefix key" "counter_entry_ok (key, val)"
    and tl: "\<forall>e \<in> set es. prefix curAbnormalPrefix (fst e) \<and> counter_entry_ok e"
    using 2(3) by auto
  have ok: "counter_entry_ok (preKey (drop (length curAbnormalPrefix) key), val)"
    using hd by (rule counter_entry_ok_moved)
  show ?case
  proof (cases "db_DelBaseDB db key")
    case (Inl err)
    then show ?thesis using 2(2) by simp
  next
    case (Inr db1)
    have ok1: "store_ok db1" using Inr 2(2) by (rule store_ok_del)
    show ?thesis
    proof (cases "db_PutBaseDB db1 (preKey (drop (length curAbnormalPrefix) key)) val")
      case (Inl err)
      then show ?thesis using Inr ok1 by simp
    next
      case (Inr db2)
      have "store_ok db2" using Inr ok ok1 by (rule store_ok_put)
      then show ?thesis using 2(1) [OF \<open>db_DelBaseDB db key = Inr db1\<close> Inr _ tl] Inr
          \<open>db_DelBaseDB db key = Inr db1\<close> by simp
    qed
  qed
qed simp

lemma switchEpoch_store_ok: "store_ok db \<Longrightarrow> store_ok (fst (switchEpoch db h))"
proof -
  assume ok: "store_ok db"
  obtain db1 r where d: "delete_walked db (db_WalkBaseDB db preAbnormalPrefix) = (db1, r)"
    by (cases "delete_walked db (db_WalkBaseDB db preAbnormalPrefix)")
  have ok1: "store_ok db1" using delete_walked_store_ok [OF ok, of "db_WalkBaseDB db preAbnormalPrefix"] d by simp
  have "\<forall>e \<in> set (db_WalkBaseDB db1 curAbnormalPrefix). prefix curAbnormalPrefix (fst e) \<and> counter_entry_ok e"
    using ok1 by (auto simp: store_ok_def counters_wf_def db_WalkBaseDB_set list_all_iff)
  then show ?thesis
    using ok1 d move_walked_store_ok [OF ok1] by (cases r) (simp_all add: switchEpoch_def)
qed

lemma setBlockAmount_store_ok:
  "sig_ok sigToPub \<Longrightarrow> store_ok db \<Longrightarrow> store_ok (fst (setBlockAmount sigToPub db h hdr))"
  by (auto simp: setBlockAmount_def parseNodeId_def sig_ok_def counter_entry_ok_curKey
      intro: store_ok_put split: sum.split)

lemma Confirmed_store_ok:
  "sig_ok sigToPub \<Longrightarrow> store_ok db \<Longrightarrow> store_ok (fst (Confirmed cfg sigToPub db blk))"
  using switchEpoch_store_ok [of db "blk_hash blk"]
    setBlockAmount_store_ok [of sigToPub "fst (switchEpoch db (blk_hash blk))"]
    setBlockAmount_store_ok [of sigToPub db]
  by (auto simp: Confirmed_def split: prod.split option.split)

lemma sys_step_store_ok:
  assumes "sig_ok sigToPub" "store_ok (ps_db s)" "sys_step stk cfg sigToPub sp s ev = (s', r)"
  shows "store_ok (ps_db s')"
proof (cases ev)
  case (EvConfirmed blk)
  then show ?thesis
    using assms Confirmed_store_ok [OF assms(1,2), of cfg blk] by (auto simp: sys_step_def split: prod.splits)
qed (use assms in \<open>auto simp: sys_step_def split: prod.splits\<close>)

lemma sys_step_records:
  assumes "sdb_slashing (ps_state s) k \<noteq> []" "sys_step stk cfg sigToPub sp s ev = (s', r)"
  shows "sdb_slashing (ps_state s') k = sdb_slashing (ps_state s) k"
proof (cases ev)
  case (EvSlash data h n tx)
  then show ?thesis
    using assms Slash_keeps_records [of "(ps_state s)\<lparr>sdb_tx_hash := tx\<rparr>" k stk sp data h n]
    by (auto simp: sys_step_def split: prod.splits)
qed (use assms in \<open>auto simp: sys_step_def split: prod.splits\<close>)

lemma sys_reach_store_ok:
  "sys_reach stk cfg sigToPub sp s0 s \<Longrightarrow> sig_ok sigToPub \<Longrightarrow> store_ok (ps_db s0) \<Longrightarrow> store_ok (ps_db s)"
proof (induction rule: sys_reach.induct)
  case (step s0 s ev s' r)
  then show ?case by (blast intro: sys_step_store_ok)
qed simp

section \<open>The singleton\<close>

lemma globals_step_ok: "globals_ok g \<Longrightarrow> globals_ok (globals_step g c)"
  by (auto simp: globals_ok_def globals_step_def SlashInstance_once_def SetDecodeEvidenceFun_global_def
      split: global_call.split option.split)

lemma globals_run_ok: "globals_ok g \<Longrightarrow> globals_ok (globals_run g cs)"
  unfolding globals_run_def by (induction cs arbitrary: g) (simp_all add: globals_step_ok)

lemma globals_run_built:
  assumes "g_once_done g" "g_slashPlugin g = Some p"
  shows "globals_run g cs = g\<lparr>g_slashPlugin := Some (p\<lparr>sp_decode := last_decoder (sp_decode p) cs\<rparr>)\<rparr>"
  using assms unfolding globals_run_def last_decoder_def
proof (induction cs arbitrary: g p)
  case Nil
  then show ?case by simp
next
  case (Cons c cs)
  show ?case
  proof (cases c)
    case (CallSlashInstance db)
    then show ?thesis
      using Cons.IH [OF Cons.prems] Cons.prems by (simp add: globals_step_def SlashInstance_once_def)
  next
    case (CallSetDecodeEvidenceFun f)
    have "globals_step g c = g\<lparr>g_slashPlugin := Some (p\<lparr>sp_decode := Some f\<rparr>)\<rparr>"
      using Cons.prems CallSetDecodeEvidenceFun
      by (simp add: globals_step_def SetDecodeEvidenceFun_global_def SetDecodeEvidenceFun_def)
    then show ?thesis
      using Cons.IH [of "g\<lparr>g_slashPlugin := Some (p\<lparr>sp_decode := Some f\<rparr>)\<rparr>" "p\<lparr>sp_decode := Some f\<rparr>"]
        Cons.prems CallSetDecodeEvidenceFun by simp
  qed
qed

text \<open>C29: the plugin is a singleton: after any sequence of package calls that has
  built the plugin, every further sequence leaves its database as the first
  SlashInstance call set it, and a later SlashInstance call, with any database,
  returns that plugin, carrying the decoder the last SetDecodeEvidenceFun set (the one
  it had if none), and changes no global.\<close>

theorem SlashInstance_singleton:
  assumes "g_slashPlugin (globals_run initial_globals cs) = Some p"
  shows "SlashInstance_once db (globals_run initial_globals (cs @ cs'))
     = (globals_run initial_globals (cs @ cs'), Some (p\<lparr>sp_decode := last_decoder (sp_decode p) cs'\<rparr>))"
proof -
  let ?g = "globals_run initial_globals cs"
  have "globals_ok ?g" by (rule globals_run_ok) (simp add: globals_ok_def initial_globals_def)
  then have od: "g_once_done ?g" using assms by (simp add: globals_ok_def)
  have "globals_run initial_globals (cs @ cs') = globals_run ?g cs'" by (simp add: globals_run_def)
  also have "\<dots> = ?g\<lparr>g_slashPlugin := Some (p\<lparr>sp_decode := last_decoder (sp_decode p) cs'\<rparr>)\<rparr>"
    using od assms by (rule globals_run_built)
  finally show ?thesis using od by (simp add: SlashInstance_once_def)
qed

section \<open>Invariants of the reachable states\<close>

text \<open>C9: the store stays well-typed in every reachable state: from a well-typed store,
  after any sequence of Confirmed, BeginBlock, EndBlock and Slash calls, failing ones
  and every pattern of I/O faults included, the base layer is sorted with distinct
  keys, every key under a counter prefix is the 7-byte prefix followed by a 64-byte
  node identity and holds a decodable uint16, and no block overlay shadows a counter.\<close>

theorem reachable_store_typed:
  assumes "sys_reach stk cfg sigToPub sp s0 s" "sig_ok sigToPub"
    and "counters_wf (ps_db s0)" "branch_clean (ps_db s0)"
  shows "kv_wf (base_db (ps_db s))
     \<and> (\<forall>(k, v) \<in> set (base_db (ps_db s)). counter_key k \<longrightarrow>
           length k = length curAbnormalPrefix + node_id_len \<and> (\<exists>a. rlp_decode_u16 v = Inr a))
     \<and> branch_clean (ps_db s)"
proof -
  have "store_ok (ps_db s)"
    using sys_reach_store_ok [OF assms(1,2)] assms(3,4) by (simp add: store_ok_def)
  then show ?thesis
    by (auto simp: store_ok_def counters_wf_def counter_entry_ok_def list_all_iff not_isl_Inr)
qed

text \<open>C10: a slashing record, once written, never changes: along every sequence of
  events from a state where the record for a key is non-empty, it keeps its value.\<close>

theorem reachable_records_permanent:
  assumes "sys_reach stk cfg sigToPub sp s0 s" "sdb_slashing (ps_state s0) k \<noteq> []"
  shows "sdb_slashing (ps_state s) k = sdb_slashing (ps_state s0) k"
  using assms
proof (induction rule: sys_reach.induct)
  case (step s0 s ev s' r)
  have before: "sdb_slashing (ps_state s) k = sdb_slashing (ps_state s0) k"
    using step.IH step.prems .
  then have "sdb_slashing (ps_state s) k \<noteq> []" using step.prems by (simp only: not_False_eq_True)
  then have "sdb_slashing (ps_state s') k = sdb_slashing (ps_state s) k"
    using step.hyps(2) by (rule sys_step_records)
  then show ?case using before by (rule trans)
qed simp

text \<open>C18: in every reachable state a read of the producer's counter fails only when
  the producer cannot be recovered from the header or the store reports an I/O fault on
  the counter key: a missing counter reads as 0, and the RLP-decoding error branch of
  getBlockAmount is unreachable, because every stored counter decodes.  Otherwise the
  read returns the producer's count in the current window.\<close>

theorem reachable_getBlockAmount:
  assumes "sys_reach stk cfg sigToPub sp s0 s" "sig_ok sigToPub" "store_ok (ps_db s0)"
  shows "getBlockAmount sigToPub (ps_db s) h hdr =
     (case parseNodeId sigToPub hdr of
        Inl e \<Rightarrow> Inl e
      | Inr nid \<Rightarrow> if io_fault (ps_db s) (curKey nid) then Inl (ErrIO (curKey nid))
                  else Inr (count0 (cur_counts (ps_db s) nid)))"
  using sys_reach_store_ok [OF assms] by (simp add: store_ok_def getBlockAmount_wf)

section \<open>Witnesses\<close>

lemma sig_ok_sample: "sig_ok sample_sig"
  by (simp add: sig_ok_def sample_sig_def)

theorem reachable_store_typed_witness:
  "kv_wf (base_db (ps_db (fst (sys_step rec_staking default_config sample_sig once_plugin sample_system
          (EvConfirmed (sample_block 1))))))
   \<and> branch_clean (ps_db (fst (sys_step rec_staking default_config sample_sig once_plugin sample_system
          (EvConfirmed (sample_block 1)))))"
proof -
  have r: "sys_reach rec_staking default_config sample_sig once_plugin sample_system
      (fst (sys_step rec_staking default_config sample_sig once_plugin sample_system (EvConfirmed (sample_block 1))))"
    by (rule sys_reach_step_intro [OF sys_reach.refl])
  show ?thesis
    using reachable_store_typed [OF r sig_ok_sample] by (simp add: sample_system_def)
qed

theorem reachable_records_permanent_witness:
  "sdb_slashing (ps_state (fst (sys_step rec_staking default_config sample_sig once_plugin slashed_system
       resubmit_event))) (mutiSignKey sample_address 100 1)
   = sdb_slashing (ps_state slashed_system) (mutiSignKey sample_address 100 1)
   \<and> sdb_slashing (ps_state slashed_system) (mutiSignKey sample_address 100 1) = replicate 32 9"
proof -
  have r: "sys_reach rec_staking default_config sample_sig once_plugin slashed_system
      (fst (sys_step rec_staking default_config sample_sig once_plugin slashed_system resubmit_event))"
    by (rule sys_reach_step_intro [OF sys_reach.refl])
  have v: "sdb_slashing (ps_state slashed_system) (mutiSignKey sample_address 100 1) = replicate 32 9"
    by (simp add: slashed_system_def sample_ds_defs)
  show ?thesis
    using reachable_records_permanent [OF r, of "mutiSignKey sample_address 100 1"] v by simp
qed


theorem reachable_getBlockAmount_witness:
  "getBlockAmount sample_sig (ps_db (fst (sys_step rec_staking default_config sample_sig once_plugin sample_system
       (EvConfirmed (sample_block 1))))) [] sample_header = Inr 1"
proof -
  have r: "sys_reach rec_staking default_config sample_sig once_plugin sample_system
      (fst (sys_step rec_staking default_config sample_sig once_plugin sample_system (EvConfirmed (sample_block 1))))"
    by (rule sys_reach_step_intro [OF sys_reach.refl])
  have ok: "store_ok (ps_db sample_system)" by (simp add: sample_system_def store_ok_def)
  have p: "parseNodeId sample_sig (blk_header (sample_block 1)) = Inr sample_node"
    by (simp add: sample_block_def parseNodeId_def sample_sig_def sample_header_def)
  obtain db' where c: "Confirmed default_config sample_sig empty_db (sample_block 1) = (db', None)"
    and cs: "counts_of db' = confirm_spec default_config (hdr_number (blk_header (sample_block 1))) sample_node
               (counts_of empty_db)"
    and nf: "no_fault db'"
    using Confirmed_step [OF p sample_node_len empty_db_facts(6,3,2), of default_config] by blast
  have "ps_db (fst (sys_step rec_staking default_config sample_sig once_plugin sample_system
       (EvConfirmed (sample_block 1)))) = db'"
    using c by (simp add: sys_step_def sample_system_def)
  moreover have "cur_counts db' sample_node = Some 1"
    using cs by (simp add: counts_of_def confirm_spec_def sample_block_def count0_def split: if_splits)
  ultimately show ?thesis
    using reachable_getBlockAmount [OF r sig_ok_sample ok, of "[]" sample_header] nf
    by (simp add: no_fault_def count0_def)
qed

theorem SlashInstance_singleton_witness:
  "SlashInstance_once (empty_db\<lparr>base_db := [([1], [2])]\<rparr>)
      (globals_run initial_globals
         ([CallSlashInstance empty_db, CallSetDecodeEvidenceFun (\<lambda>_. Inr [])]
          @ [CallSlashInstance (empty_db\<lparr>base_db := [([1], [2])]\<rparr>)]))
   = (globals_run initial_globals
         ([CallSlashInstance empty_db, CallSetDecodeEvidenceFun (\<lambda>_. Inr [])]
          @ [CallSlashInstance (empty_db\<lparr>base_db := [([1], [2])]\<rparr>)]),
      Some (SetDecodeEvidenceFun (SlashInstance empty_db) (\<lambda>_. Inr [])))"
proof -
  have b: "g_slashPlugin (globals_run initial_globals
      [CallSlashInstance empty_db, CallSetDecodeEvidenceFun (\<lambda>_. Inr [])])
      = Some (SetDecodeEvidenceFun (SlashInstance empty_db) (\<lambda>_. Inr []))"
    by (simp add: globals_run_def globals_step_def SlashInstance_once_def initial_globals_def
        SetDecodeEvidenceFun_global_def)
  show ?thesis
    using SlashInstance_singleton [OF b, of "empty_db\<lparr>base_db := [([1], [2])]\<rparr>"
        "[CallSlashInstance (empty_db\<lparr>base_db := [([1], [2])]\<rparr>)]"]
    by (simp add: last_decoder_def SetDecodeEvidenceFun_def SlashInstance_def)
qed

end
