(* ===== verification/Staking_Contract.thy ===== *)
theory Staking_Contract
  imports Low_Performance Double_Sign
begin

text \<open>
  What the plugin relies on from the staking ledger (x/staking, outside the plugin's
  sources), stated as a contract on the interface record \<open>'l staking\<close> and an
  abstraction \<open>act\<close> of the ledger state to its set of active validators: a successful
  SlashCandidates call with the removal flag takes the node out of the active set and
  changes nothing else in it; without the flag it leaves the set as it was (spec
  \<section>4.3, \<section>4.4, \<section>6).  The plugin's results are proved for every ledger that
  meets the contract: EndBlock removes exactly the validators of the severe tier, and a
  successful Slash removes exactly the offender.  The recording ledger of the examples
  meets the contract.
\<close>

section \<open>The contract\<close>

definition staking_contract :: "'l staking \<Rightarrow> ('l \<Rightarrow> node_id set) \<Rightarrow> bool" where
  "staking_contract stk act \<longleftrightarrow>
     (\<forall>l h n nid amount isDelete reason l'.
        stk_slash stk l h n nid amount isDelete reason = Inr l' \<longrightarrow>
        act l' = (if isDelete then act l - {nid} else act l))"

text \<open>The active validators of the recording ledger.\<close>

definition rec_active :: "ledger \<Rightarrow> node_id set" where
  "rec_active l = cand_node_id ` set (lg_validators l)"

section \<open>Who is removed\<close>

text \<open>The nodes a list of penalties removes, and the validators of the severe tier:
  with a previous-round count that is abnormal and at most blockAmountHigh.\<close>

definition removed_by :: "(candidate \<times> 64 word \<times> bool) list \<Rightarrow> node_id set" where
  "removed_by ps = {cand_node_id v | v r. (v, r, True) \<in> set ps}"

definition severe_validators :: "xcom_config \<Rightarrow> (node_id \<Rightarrow> 16 word option) \<Rightarrow> candidate list \<Rightarrow>
    node_id set" where
  "severe_validators cfg result vl =
     {cand_node_id v | v c. v \<in> set vl \<and> result (cand_node_id v) = Some c
                            \<and> isAbnormal cfg c \<and> c \<le> blockAmountHigh}"

text \<open>A store whose previous window says the sample node produced 3 blocks.\<close>

definition pre3_db :: snapdb where
  "pre3_db = empty_db\<lparr>base_db := [(preKey sample_node, rlp_encode_u16 3)]\<rparr>"

section \<open>Lemmas\<close>

lemma rec_staking_contract: "staking_contract rec_staking rec_active"
  by (auto simp: staking_contract_def rec_staking_def rec_slash_def rec_active_def)

lemma removed_by_Cons:
  "removed_by ((v, rate, isDelete) # ps) = (if isDelete then {cand_node_id v} else {}) \<union> removed_by ps"
  by (auto simp: removed_by_def)

lemma apply_penalties_active:
  "staking_contract stk act \<Longrightarrow> apply_penalties stk h n l ps = (l', None) \<Longrightarrow>
   act l' = act l - removed_by ps"
proof (induction stk h n l ps rule: apply_penalties.induct)
  case (1 stk h n st)
  then show ?case by (simp add: removed_by_def)
next
  case (2 stk h n st v rate isDelete ps)
  obtain amount st1 where a: "calcSlashAmount v rate = Inr amount"
    and s: "stk_slash stk st h n (cand_node_id v) amount isDelete LowRatio = Inr st1"
    and rest: "apply_penalties stk h n st1 ps = (l', None)"
    using "2.prems"(2) by (auto split: sum.splits)
  have "act st1 = (if isDelete then act st - {cand_node_id v} else act st)"
    using "2.prems"(1) s by (simp add: staking_contract_def)
  then show ?case
    using "2.IH" [OF a s "2.prems"(1) rest] by (auto simp: removed_by_Cons)
qed

lemma slash_decision_delete:
  "slash_decision cfg result nid = (isSlash, r, True) \<longleftrightarrow>
     (\<exists>c. result nid = Some c \<and> isAbnormal cfg c \<and> c \<le> blockAmountHigh) \<and> isSlash \<and> r = blockAmountHighSlashing"
  by (auto simp: slash_decision_def split: option.splits)

lemma low_ratio_delete_mem:
  "(v, r, True) \<in> set (low_ratio_penalties cfg result vl) \<longleftrightarrow>
     v \<in> set vl \<and> slash_decision cfg result (cand_node_id v) = (True, r, True) \<and> 0 < r"
  by (auto simp: low_ratio_penalties_def split: prod.splits if_splits) (rule bexI [of _ v], auto)

lemma low_ratio_removed:
  "removed_by (low_ratio_penalties cfg result vl) = severe_validators cfg result vl"
  by (auto simp: removed_by_def severe_validators_def low_ratio_delete_mem slash_decision_delete
      blockAmountHighSlashing_def)

section \<open>The plugin against the contract\<close>

text \<open>C11: for every staking ledger that meets the contract, a successful EndBlock at
  an election block after the first round removes from the active set exactly the
  validators of the severe tier (previous-round count abnormal and at most
  blockAmountHigh) and keeps every other validator; in particular a validator with no
  previous-round record stays.\<close>

theorem EndBlock_removes_severe:
  assumes "staking_contract stk act" "counters_wf db"
    and "IsElection cfg (hdr_number hdr)" "consensus_size cfg < hdr_number hdr"
    and "stk_get_candidate_on_round stk h (hdr_number hdr) l = Inr vl"
    and "EndBlock stk cfg db h hdr l = (l', None)"
  shows "act l' = act l - severe_validators cfg (pre_counts db) vl"
proof -
  have "apply_penalties stk h (hdr_number hdr) l (low_ratio_penalties cfg (pre_counts db) vl) = (l', None)"
    using assms(2-6) by (simp add: EndBlock_def GetPreNodeAmount_def collect_pre_walk slash_validators_pipeline)
  then show ?thesis
    using apply_penalties_active [OF assms(1)] by (simp add: low_ratio_removed)
qed

text \<open>C12: for every staking ledger that meets the contract, a successful Slash of a
  payload holding one evidence removes from the active set exactly the candidate the
  ledger returns for the evidence's address, and nothing else.\<close>

theorem Slash_removes_offender:
  assumes "staking_contract stk act" "sp_decode sp = Some dec" "dec data = Inr [ev]"
    and "Slash stk sp data h n s = (s', None)"
  shows "\<exists>c. stk_get_candidate_info stk h (ev_address ev) (sdb_ledger s) = Inr c
           \<and> act (sdb_ledger s') = act (sdb_ledger s) - {cand_node_id c}"
proof -
  have run: "slash_evidences stk h n s [ev] = (s', None)"
    using assms(2-4) by (simp add: Slash_def)
  obtain c amount l' where c: "stk_get_candidate_info stk h (ev_address ev) (sdb_ledger s) = Inr c"
    and sl: "stk_slash stk (sdb_ledger s) h n (cand_node_id c) amount True DoubleSign = Inr l'"
    and s': "s' = putSlashResult (ev_address ev) (ev_block_number ev) (ev_type ev) (s\<lparr>sdb_ledger := l'\<rparr>)"
    by (rule slash_evidences_Cons_ok [OF run]) auto
  have "act l' = act (sdb_ledger s) - {cand_node_id c}"
    using assms(1) sl by (simp add: staking_contract_def)
  then show ?thesis using c s' by (simp add: putSlashResult_def)
qed

section \<open>Witnesses\<close>

lemma counters_wf_pre3: "counters_wf pre3_db"
  by (simp add: pre3_db_def counters_wf_def kv_wf_def counter_entry_ok_curKey)

theorem EndBlock_removes_severe_witness:
  "EndBlock rec_staking default_config pre3_db [] (sample_header\<lparr>hdr_number := 480\<rparr>) sample_ledger
     = (sample_ledger\<lparr>lg_validators := [], lg_log := [(sample_node, 50, True, LowRatio)]\<rparr>, None)
   \<and> rec_active (sample_ledger\<lparr>lg_validators := [], lg_log := [(sample_node, 50, True, LowRatio)]\<rparr>)
     = rec_active sample_ledger - severe_validators default_config (pre_counts pre3_db) (lg_validators sample_ledger)
   \<and> severe_validators default_config (pre_counts pre3_db) (lg_validators sample_ledger) = {sample_node}"
proof -
  have pc: "pre_counts pre3_db = [sample_node \<mapsto> 3]"
    by (simp add: fun_eq_iff pre_counts_def counter_of_def base_lookup_def pre3_db_def rlp_decode_encode_u16)
  have el: "IsElection default_config 480" "consensus_size default_config < 480"
    by (simp_all add: IsElection_def default_config_def)
  have ab: "isAbnormal default_config 3" by (simp add: isAbnormal_default)
  have e: "EndBlock rec_staking default_config pre3_db [] (sample_header\<lparr>hdr_number := 480\<rparr>) sample_ledger
     = (sample_ledger\<lparr>lg_validators := [], lg_log := [(sample_node, 50, True, LowRatio)]\<rparr>, None)"
    using counters_wf_pre3 el ab
    by (simp add: EndBlock_def GetPreNodeAmount_def collect_pre_walk slash_validators_pipeline pc
        sample_header_def rec_staking_def sample_ledger_def
        low_ratio_penalties_def slash_decision_def blockAmountLow_def blockAmountHigh_def
        blockAmountHighSlashing_def calcSlashAmount_def rec_slash_def sample_candidate_def stake_sum_def)
  have sv: "severe_validators default_config (pre_counts pre3_db) (lg_validators sample_ledger) = {sample_node}"
    by (auto simp: severe_validators_def pc sample_ledger_def sample_candidate_def isAbnormal_default
        blockAmountHigh_def)
  show ?thesis
    using EndBlock_removes_severe [OF rec_staking_contract counters_wf_pre3, where cfg = default_config
        and hdr = "sample_header\<lparr>hdr_number := 480\<rparr>" and h = "[]" and l = sample_ledger
        and vl = "lg_validators sample_ledger"] e sv
    by (simp add: IsElection_def default_config_def sample_header_def rec_staking_def)
qed

theorem Slash_removes_offender_witness:
  "rec_active (sdb_ledger (fst (Slash rec_staking once_plugin ''payload'' [] 200 sample_state)))
     = rec_active (sdb_ledger sample_state) - {sample_node}
   \<and> rec_active (sdb_ledger sample_state) = {sample_node}"
proof -
  have run: "Slash rec_staking once_plugin ''payload'' [] 200 sample_state
      = (fst (Slash rec_staking once_plugin ''payload'' [] 200 sample_state), None)"
    by (simp add: Slash_def once_plugin_def sample_ds_defs)
  obtain c where c: "stk_get_candidate_info rec_staking [] (ev_address sample_evidence) (sdb_ledger sample_state) = Inr c"
    and a: "rec_active (sdb_ledger (fst (Slash rec_staking once_plugin ''payload'' [] 200 sample_state)))
              = rec_active (sdb_ledger sample_state) - {cand_node_id c}"
    using Slash_removes_offender [OF rec_staking_contract, where sp = once_plugin
        and dec = "\<lambda>_. Inr [sample_evidence]" and data = "''payload''" and ev = sample_evidence
        and h = "[]" and n = 200 and s = sample_state] run
    by (auto simp: once_plugin_def SetDecodeEvidenceFun_def SlashInstance_def)
  have "cand_node_id c = sample_node"
    using c by (simp add: sample_ds_defs split: if_splits) (drule sym, simp)
  moreover have "rec_active (sdb_ledger sample_state) = {sample_node}"
    by (simp add: rec_active_def sample_ds_defs)
  ultimately show ?thesis using a by simp
qed

end
