(* ===== verification/Spec2Isabelle.thy ===== *)
theory Spec2Isabelle
  imports Epoch_Rotation Low_Performance Double_Sign Walk_Loop Plugin_System Staking_Contract
begin

text \<open>
  Verification of the slashing plugin of PlatON-Go (src/x/plugin/slashing_plugin.go).

  \<^bold>\<open>The program.\<close>  The plugin keeps, per validator, the number of blocks it produced
  in the current and in the previous consensus round (snapshot-store keys
  \<open>"SlashCb" ++ nodeId\<close> and \<open>"SlashPb" ++ nodeId\<close>, RLP-encoded uint16).  The
  consensus engine calls three hooks: Confirmed after each confirmed block (rotate the
  two windows at the first block of a round, then count the block for its producer),
  EndBlock during block execution (at the election block of every round after the
  first, slash validators whose previous-round count is abnormal), and BeginBlock (a
  no-op).  Transactions call Slash with double-sign evidence (validate, refuse an
  already punished misbehaviour, slash through the staking ledger with removal,
  record the transaction hash in the slashing contract storage) and CheckMutiSign to
  query a record.  calcSlashAmount computes every penalty as stake / rate.

  \<^bold>\<open>Theories.\<close>
  \<^item> Slash_Prelude: byte types, the \<open>error\<close> datatype (Go errors and panics as
    values), the consensus configuration (xcom.ConsensusSize, ConsValidatorNum,
    ElectionDistance) as a record, xutil.IsElection, utils.Uint64ToBytes,
    discover.BytesID.
  \<^item> Rlp_Uint16: rlp.EncodeToBytes / DecodeBytes on uint16, modelled from the RLP
    rules; both round trips.
  \<^item> Snapshot_Store: snapshotdb.DB at the interface the plugin uses (branch-scoped
    Get, base-layer PutBaseDB / DelBaseDB / WalkBaseDB) with a per-key I/O fault
    oracle, so every \<open>if err != nil\<close> of the plugin is a reachable branch.
  \<^item> Round_Counter: curKey, preKey, getNodeId, parseNodeId, getBlockAmount,
    setBlockAmount; the invariant \<open>counters_wf\<close> (sorted distinct base layer, counter
    keys of the right length holding decodable values), \<open>branch_clean\<close> (no block
    overlay shadows a counter) and the abstraction to two windows of counts
    (\<open>cur_counts\<close>, \<open>pre_counts\<close>).
  \<^item> Epoch_Rotation: the two WalkBaseDB callbacks of switchEpoch (\<open>delete_walked\<close>,
    \<open>move_walked\<close>), switchEpoch and Confirmed, and the abstract step
    \<open>confirm_spec\<close> on the windows.
  \<^item> Penalty: staking.Candidate, calcSlashAmount, and the staking ledger as an
    interface record (\<open>'l staking\<close>: GetCandidateONRound, GetCandidateInfo,
    SlashCandidates over any ledger state \<open>'l\<close>), with a recording ledger for examples.
  \<^item> Low_Performance: the threshold constants, isAbnormal, GetPreNodeAmount and its
    walk callback \<open>collect_pre\<close>, the per-validator decision \<open>slash_decision\<close>, the
    validator loop \<open>slash_validators\<close>, EndBlock and BeginBlock.
  \<^item> Double_Sign: the plugin record with its injected decoder (SlashInstance,
    SetDecodeEvidenceFun), mutiSignKey, getSlashResult / putSlashResult on the
    contract storage, the evidence loop \<open>slash_evidences\<close>, Slash, CheckMutiSign.
  \<^item> Walk_Loop: the \<open>for iter.Next()\<close> loops of the three WalkBaseDB callbacks
    as written, with While_Combinator's \<open>while_option\<close> (\<open>walk_loop\<close>, bodies
    \<open>delete_body\<close>, \<open>move_body\<close>, \<open>collect_body\<close>), and switchEpoch and
    GetPreNodeAmount built from them.
  \<^item> Plugin_System: the plugin as a state machine driven by the engine (events
    Confirmed, BeginBlock, EndBlock, Slash; \<open>sys_step\<close>; reachability \<open>sys_reach\<close>),
    and the package globals \<open>once\<close> / \<open>slashPlugin\<close> behind SlashInstance.
  \<^item> Staking_Contract: the contract the staking ledger's SlashCandidates must meet on
    the set of active validators (removal takes the node out, nothing else changes),
    the plugin's removal results for every ledger meeting it, and the recording
    ledger meeting it.
  \<^item> this theory: runs of Confirmed over a list of blocks (\<open>confirm_chain\<close>), their
    abstract counterpart \<open>chain_spec\<close> and the window a round leaves
    (\<open>round_window\<close>); the properties that span the counter store, the rotation
    and the policy; a small configuration (10-block rounds, 2 validators) for the
    witnesses.

  Stateful operations pass the state explicitly.  Operations that mutate in place
  return \<open>'s outcome\<close>, the state they leave together with the error they report,
  because Go rolls nothing back; pure fallible functions return \<open>error + 'a\<close>.
  uint16 counters are \<open>16 word\<close> (value++ wraps), block numbers \<open>64 word\<close>, the evidence
  type the \<open>32 word\<close> int32 sign-extended to uint64 in the key; stakes are \<open>int\<close>
  (big.Int).  No fuel is needed: every loop of the plugin walks a finite list (the
  iterator's snapshot, the validator list, the evidence list) and is structural
  recursion over it.

  \<^bold>\<open>Results.\<close>
  \<^item> Refinement: setBlockAmount adds one to the producer's current count,
    Confirmed implements \<open>confirm_spec\<close> (shift the windows at a round start, then
    count the block), GetPreNodeAmount returns the previous window, and EndBlock is
    "apply, in validator order, the penalties the previous window decides"; each
    keeps the store invariants.  Over a run, the current counter of a node is exactly
    the number of blocks it produced in the round (no wrap below 65536 blocks); after
    two rounds, for every configuration, EndBlock applies exactly the penalties
    decided from each validator's production in the first round.
  \<^item> Rotation: without store failures switchEpoch empties the current window,
    moves every current value under the previous-round key of its node, drops the old
    previous values and leaves every other key alone.
  \<^item> Timing: for a sound configuration the last round start before an election
    block \<open>n\<close> is \<open>n + ElectionDistance + 1 - ConsensusSize\<close> (64-bit arithmetic,
    stated under the hypothesis that \<open>n + ElectionDistance + 1\<close> does not wrap),
    so the policy reads the window rotated at the start of its own round.
  \<^item> Policy: the tier table with the default configuration (threshold 10; 0..5
    blocks: rate 20 and removal; 6..8: rate 10; 9 and more: none; no record: rate
    20 without removal); for every configuration the decision is antitone in the
    count (fewer blocks never means a lower rate, and removal of a validator implies
    removal of every one with fewer blocks); the penalty is the floor of stake / rate.
  \<^item> Double sign: the record key is injective, a punished misbehaviour is refused
    in every later call without calling the ledger, a batch commits its prefix up to
    the first failure, CheckMutiSign reports every punished evidence, and every
    successful Slash calls SlashCandidates once per evidence with a tenth of the
    candidate's stake, removal and the reason DoubleSign.
  \<^item> System: in every reachable state, failing calls and I/O faults included, the
    store is well-typed (counter keys of 71 bytes holding decodable uint16 values,
    sorted distinct base layer, clean overlays), slashing records never change once
    written, and getBlockAmount fails only when the producer cannot be recovered or
    the store faults on the counter key (a missing counter reads 0; the RLP-decode
    error branch is unreachable).  After any sequence of package calls that built the
    plugin, SlashInstance returns that plugin, on the first call's database and with
    the decoder last set, whatever database later calls pass.
  \<^item> Ledger contract: for every staking ledger meeting the contract, a successful
    EndBlock removes exactly the severe-tier validators from the active set (a
    validator without a record stays), and a successful Slash of one evidence
    removes exactly the offender.
  \<^item> Errors: a failing setBlockAmount changes nothing; switchEpoch is not atomic
    (on every well-formed store where only a node's previous-round key fails to be
    written, the rotation returns the error with that node's count in neither
    window); Confirmed is not atomic (a failure counting the block leaves the
    rotation applied); a failing evidence changes nothing and ends its batch,
    keeping what earlier evidences did; one undecodable previous-round counter makes
    EndBlock fail before any ledger call.  Slash before SetDecodeEvidenceFun is
    modelled as the nil-function panic it is, with the state untouched.
  \<^item> Loops (lemmas of Walk_Loop): every iterator loop terminates (a measure on the
    entries left, through \<open>measure_while_option_Some\<close>), and the loop forms of
    switchEpoch and GetPreNodeAmount compute what the structural recursions the
    results use compute.

  \<^bold>\<open>Findings.\<close>  switchEpoch writes to the committed base layer and can lose a
  count on failure although the spec asks for atomic rotation, and Confirmed keeps a
  rotation whose block it failed to count; a validator without
  any previous-round record is slashed at the severe rate but not removed, while one
  with a single block is removed; the double-sign penalty uses
  duplicateSignLowSlashing (10), not the severe rate; counters wrap at 65536; Slash
  tests a record with \<open>len(value) > 0\<close> and CheckMutiSign with \<open>value != nil\<close>.

  \<^bold>\<open>Not modelled.\<close>  Logging (no effect on results); crypto.SigToPub and
  discover.PubkeyID (a parameter \<open>sig_recover\<close> of the operations that recover the
  producer); the balance and removal logic of the staking ledger and the evidence
  decoder and validator (interfaces: their results are parameters or fields); the
  consensus engine itself, of which only the order of its calls into the plugin is
  modelled (Plugin_System); forks beyond the per-block overlays of the store.  The
  staking ledger is assumed not to write the slashing contract's storage, and a failing
  ledger call to change nothing (spec \<section>7).  A ConsensusSize or ConsValidatorNum of 0
  would make Go panic on its division (lines 124 and 316); the model's word division
  yields 0 there instead, and the timing results assume a sound configuration.  The
  contract storage maps keys to byte strings, so CheckMutiSign's \<open>value != nil\<close> is
  read as \<open>value \<noteq> []\<close>: a nil and an empty record are not distinguished.
\<close>

section \<open>Runs of confirmed blocks\<close>

text \<open>The consensus engine calls Confirmed once per confirmed block, in chain order;
  a run stops at the first error the hook reports.\<close>

fun confirm_chain :: "xcom_config \<Rightarrow> sig_recover \<Rightarrow> snapdb \<Rightarrow> block list \<Rightarrow> snapdb outcome" where
  "confirm_chain cfg sigToPub db [] = (db, None)"
| "confirm_chain cfg sigToPub db (b # bs) =
     (case Confirmed cfg sigToPub db b of
        (db', None) \<Rightarrow> confirm_chain cfg sigToPub db' bs
      | (db', Some e) \<Rightarrow> (db', Some e))"

text \<open>The abstract run: \<open>confirm_spec\<close> per block, the producer of each block
  given by a function.\<close>

definition chain_spec :: "xcom_config \<Rightarrow> (block \<Rightarrow> node_id) \<Rightarrow> counts \<times> counts \<Rightarrow> block list \<Rightarrow> counts \<times> counts" where
  "chain_spec cfg producer = foldl (\<lambda>w b. confirm_spec cfg (hdr_number (blk_header b)) (producer b) w)"

text \<open>The number of blocks of a list that a node produced.\<close>

definition produced :: "(block \<Rightarrow> node_id) \<Rightarrow> block list \<Rightarrow> node_id \<Rightarrow> nat" where
  "produced producer bs n = length (filter (\<lambda>b. producer b = n) bs)"

text \<open>The window of counts a round of blocks leaves: each producer with its number of
  blocks as a uint16.\<close>

definition round_window :: "(block \<Rightarrow> node_id) \<Rightarrow> block list \<Rightarrow> counts" where
  "round_window producer bs n =
     (if produced producer bs n = 0 then None else Some (of_nat (produced producer bs n)))"

section \<open>A small configuration\<close>

text \<open>A configuration with 10 blocks per round, 2 validators and the election
  2 blocks before the boundary, so the abnormality threshold is 5 blocks.  Node B
  produces blocks 8 to 10, node A every other block, node C none.\<close>

definition small_config :: xcom_config where
  "small_config = \<lparr>consensus_size = 10, cons_validator_num = 2, election_distance = 2\<rparr>"

definition node_A :: node_id where "node_A = replicate 64 1"
definition node_B :: node_id where "node_B = replicate 64 2"
definition node_C :: node_id where "node_C = replicate 64 3"

definition scen_sig :: sig_recover where
  "scen_sig h s = Inr (if h = [2] then node_B else node_A)"

definition scen_producer :: "block \<Rightarrow> node_id" where
  "scen_producer b = (if hdr_seal_hash (blk_header b) = [2] then node_B else node_A)"

definition scen_block :: "64 word \<Rightarrow> block" where
  "scen_block n = \<lparr>blk_hash = [], blk_header = \<lparr>hdr_number = n, hdr_extra = replicate 97 0,
      hdr_seal_hash = (if 8 \<le> n \<and> n \<le> 10 then [2] else [1])\<rparr>\<rparr>"

definition scen_ledger :: ledger where
  "scen_ledger = \<lparr>lg_validators = [sample_candidate node_A (replicate 20 1) 1000,
       sample_candidate node_B (replicate 20 2) 1000, sample_candidate node_C (replicate 20 3) 1000],
     lg_log = []\<rparr>"

section \<open>Runs: lemmas\<close>

text \<open>A run without store failures refines the abstract run and keeps the
  invariants.\<close>

lemma confirm_chain_refines:
  assumes "\<forall>b \<in> set bs. parseNodeId sigToPub (blk_header b) = Inr (producer b) \<and> length (producer b) = node_id_len"
    and "no_fault db" "counters_wf db" "branch_clean db"
  shows "\<exists>db'. confirm_chain cfg sigToPub db bs = (db', None)
     \<and> counts_of db' = chain_spec cfg producer (counts_of db) bs
     \<and> counters_wf db' \<and> branch_clean db' \<and> no_fault db'"
  using assms
proof (induction bs arbitrary: db)
  case Nil
  then show ?case by (simp add: chain_spec_def)
next
  case (Cons b bs)
  obtain db1 where c: "Confirmed cfg sigToPub db b = (db1, None)"
    and w: "counts_of db1 = confirm_spec cfg (hdr_number (blk_header b)) (producer b) (counts_of db)"
    and inv: "counters_wf db1" "branch_clean db1" "no_fault db1"
    using Confirmed_step [of sigToPub b "producer b" db cfg] Cons.prems by auto
  show ?case
    using Cons.IH [of db1] Cons.prems(1) inv c w by (simp add: chain_spec_def)
qed

text \<open>Within a round the producer's count goes up by one per block.\<close>

lemma confirm_spec_no_start:
  "\<not> is_round_start cfg n \<Longrightarrow> confirm_spec cfg n nid w = ((fst w)(nid \<mapsto> count0 (fst w nid) + 1), snd w)"
  by (cases w) (simp add: confirm_spec_def)

lemma chain_spec_Cons:
  "chain_spec cfg producer w (b # bs)
   = chain_spec cfg producer (confirm_spec cfg (hdr_number (blk_header b)) (producer b) w) bs"
  by (simp add: chain_spec_def)

lemma chain_spec_no_start:
  assumes "\<forall>b \<in> set bs. \<not> is_round_start cfg (hdr_number (blk_header b))"
  shows "chain_spec cfg producer w bs
       = (\<lambda>n. if fst w n = None \<and> produced producer bs n = 0 then None
              else Some (count0 (fst w n) + of_nat (produced producer bs n)), snd w)"
  using assms
proof (induction bs arbitrary: w)
  case Nil
  then show ?case by (cases w) (simp add: chain_spec_def produced_def count0_def fun_eq_iff split: option.split)
next
  case (Cons b bs)
  let ?w = "((fst w)(producer b \<mapsto> count0 (fst w (producer b)) + 1), snd w)"
  have "chain_spec cfg producer w (b # bs) = chain_spec cfg producer ?w bs"
    using Cons.prems by (simp add: chain_spec_Cons confirm_spec_no_start)
  also have "\<dots> = (\<lambda>n. if fst ?w n = None \<and> produced producer bs n = 0 then None
              else Some (count0 (fst ?w n) + of_nat (produced producer bs n)), snd ?w)"
    using Cons.IH Cons.prems by simp
  finally show ?case
    by (auto simp: produced_def count0_def fun_eq_iff split: option.split)
qed

lemma confirm_spec_start:
  "is_round_start cfg n \<Longrightarrow> confirm_spec cfg n nid w = ([nid \<mapsto> 1], fst w)"
  by (cases w) (simp add: confirm_spec_def count0_def)

lemma produced_le: "produced producer bs n \<le> length bs"
  by (simp add: produced_def)

text \<open>A round on the abstract windows: a round-start block and blocks of the same
  round leave the round's window as the current one and the former current one as the
  previous one.\<close>

lemma chain_spec_round:
  assumes "is_round_start cfg (hdr_number (blk_header b_start))"
    and "\<forall>b \<in> set bs. \<not> is_round_start cfg (hdr_number (blk_header b))"
  shows "chain_spec cfg producer w (b_start # bs) = (round_window producer (b_start # bs), fst w)"
proof -
  let ?m = "[producer b_start \<mapsto> (1 :: 16 word)]"
  have "chain_spec cfg producer w (b_start # bs) = chain_spec cfg producer (?m, fst w) bs"
    using assms(1) by (simp add: chain_spec_Cons confirm_spec_start)
  also have "\<dots> = (\<lambda>n. if ?m n = None \<and> produced producer bs n = 0 then None
              else Some (count0 (?m n) + of_nat (produced producer bs n)), fst w)"
    using chain_spec_no_start [OF assms(2), of producer "(?m, fst w)"] by (simp only: fst_conv snd_conv)
  also have "\<dots> = (round_window producer (b_start # bs), fst w)"
    by (auto simp: round_window_def produced_def count0_def fun_eq_iff of_nat_Suc ac_simps)
  finally show ?thesis .
qed

lemma chain_spec_append: "chain_spec cfg producer w (xs @ ys) = chain_spec cfg producer (chain_spec cfg producer w xs) ys"
  by (simp add: chain_spec_def)

text \<open>C13: within a round the store counts exactly: after a round-start block and
  fewer than 65535 further blocks of the same round, with valid producers and no store
  failure, the run succeeds, the current-round counter of every node read as uint16 is
  the number of blocks it produced in the round (no wrap-around), a node has a counter
  exactly when it produced a block, and the previous-round window holds what the
  current window held before the round.\<close>

theorem round_counts_exact:
  assumes "\<forall>b \<in> set (b_start # bs). parseNodeId sigToPub (blk_header b) = Inr (producer b)
                                \<and> length (producer b) = node_id_len"
    and "no_fault db" "counters_wf db" "branch_clean db"
    and "is_round_start cfg (hdr_number (blk_header b_start))"
    and "\<forall>b \<in> set bs. \<not> is_round_start cfg (hdr_number (blk_header b))"
    and "length bs < 65535"
  shows "\<exists>db'. confirm_chain cfg sigToPub db (b_start # bs) = (db', None)
     \<and> (\<forall>n. unat (count0 (cur_counts db' n)) = produced producer (b_start # bs) n)
     \<and> (\<forall>n. cur_counts db' n = None \<longleftrightarrow> produced producer (b_start # bs) n = 0)
     \<and> pre_counts db' = cur_counts db
     \<and> counters_wf db' \<and> branch_clean db' \<and> no_fault db'"
proof -
  obtain db' where run: "confirm_chain cfg sigToPub db (b_start # bs) = (db', None)"
    and w: "counts_of db' = chain_spec cfg producer (counts_of db) (b_start # bs)"
    and inv: "counters_wf db'" "branch_clean db'" "no_fault db'"
    using confirm_chain_refines [OF assms(1-4), of cfg] by blast
  have "counts_of db' = (round_window producer (b_start # bs), cur_counts db)"
    using w chain_spec_round [OF assms(5,6), of producer "counts_of db"] by (simp add: counts_of_def)
  then have cur: "cur_counts db' = round_window producer (b_start # bs)"
    and pre: "pre_counts db' = cur_counts db"
    by (simp_all add: counts_of_def)
  have small: "produced producer (b_start # bs) n < 65536" for n
    using produced_le [of producer "b_start # bs" n] assms(7) by simp
  have "unat (count0 (cur_counts db' n)) = produced producer (b_start # bs) n" for n
    using small [of n] unat_of_nat_u16 [of "produced producer (b_start # bs) n"]
    by (simp add: cur round_window_def count0_def)
  moreover have "cur_counts db' n = None \<longleftrightarrow> produced producer (b_start # bs) n = 0" for n
    by (simp add: cur round_window_def)
  ultimately show ?thesis using run pre inv by blast
qed

section \<open>Two rounds through EndBlock\<close>

lemma scen_nodes_distinct [simp]: "node_B \<noteq> node_A" "node_A \<noteq> node_B" "node_C \<noteq> node_A" "node_C \<noteq> node_B"
  by (simp_all add: node_A_def node_B_def node_C_def)

text \<open>C8: for every configuration, after two rounds of confirmed blocks with valid
  producers and no store failure, the previous window holds each node's number of
  blocks in the first round and the current window its number in the second; EndBlock
  then does nothing off the election block of a round after the first, and at it
  applies, in validator order, exactly the penalties decided from the first round's
  production counts.\<close>

theorem EndBlock_previous_round:
  assumes "\<forall>b \<in> set (b_prev # bs_prev @ b_cur # bs_cur).
             parseNodeId sigToPub (blk_header b) = Inr (producer b) \<and> length (producer b) = node_id_len"
    and "no_fault db" "counters_wf db" "branch_clean db"
    and "is_round_start cfg (hdr_number (blk_header b_prev))"
    and "\<forall>b \<in> set bs_prev. \<not> is_round_start cfg (hdr_number (blk_header b))"
    and "is_round_start cfg (hdr_number (blk_header b_cur))"
    and "\<forall>b \<in> set bs_cur. \<not> is_round_start cfg (hdr_number (blk_header b))"
  shows "\<exists>db'. confirm_chain cfg sigToPub db (b_prev # bs_prev @ b_cur # bs_cur) = (db', None)
     \<and> pre_counts db' = round_window producer (b_prev # bs_prev)
     \<and> cur_counts db' = round_window producer (b_cur # bs_cur)
     \<and> EndBlock stk cfg db' h hdr st =
       (if IsElection cfg (hdr_number hdr) \<and> consensus_size cfg < hdr_number hdr then
          (case stk_get_candidate_on_round stk h (hdr_number hdr) st of
             Inl e \<Rightarrow> (st, Some e)
           | Inr vl \<Rightarrow> apply_penalties stk h (hdr_number hdr) st
                        (low_ratio_penalties cfg (round_window producer (b_prev # bs_prev)) vl))
        else (st, None))"
proof -
  obtain db' where run: "confirm_chain cfg sigToPub db (b_prev # bs_prev @ b_cur # bs_cur) = (db', None)"
    and w: "counts_of db' = chain_spec cfg producer (counts_of db) (b_prev # bs_prev @ b_cur # bs_cur)"
    and wf: "counters_wf db'"
    using confirm_chain_refines [OF assms(1-4), of cfg] by blast
  have "counts_of db' = (round_window producer (b_cur # bs_cur), round_window producer (b_prev # bs_prev))"
  proof -
    have "b_prev # bs_prev @ b_cur # bs_cur = (b_prev # bs_prev) @ (b_cur # bs_cur)" by simp
    then show ?thesis
      using w chain_spec_round [OF assms(5,6), of producer "counts_of db"]
        chain_spec_round [OF assms(7,8), of producer]
      by (simp only: chain_spec_append fst_conv)
  qed
  then have c: "cur_counts db' = round_window producer (b_cur # bs_cur)"
    and p: "pre_counts db' = round_window producer (b_prev # bs_prev)"
    by (simp_all add: counts_of_def)
  have "EndBlock stk cfg db' h hdr st =
       (if IsElection cfg (hdr_number hdr) \<and> consensus_size cfg < hdr_number hdr then
          (case stk_get_candidate_on_round stk h (hdr_number hdr) st of
             Inl e \<Rightarrow> (st, Some e)
           | Inr vl \<Rightarrow> apply_penalties stk h (hdr_number hdr) st (low_ratio_penalties cfg (pre_counts db') vl))
        else (st, None))"
    using wf by (simp add: EndBlock_def GetPreNodeAmount_def collect_pre_walk slash_validators_pipeline split: sum.split)
  note e = this [unfolded p]
  show ?thesis using run c p e by blast
qed

section \<open>When the policy runs\<close>

text \<open>The round-start test and the election test read on the natural numbers; the
  election test only while \<open>n + ElectionDistance\<close> does not wrap around.\<close>

lemma round_start_unat:
  "is_round_start cfg m \<longleftrightarrow> unat m mod unat (consensus_size cfg) = 1 \<and> 1 < unat m"
  by (simp add: is_round_start_def word_less_nat_alt word_unat_eq_iff unat_mod)

lemma IsElection_unat:
  assumes "unat n + unat (election_distance cfg) < 2 ^ 64"
  shows "IsElection cfg n \<longleftrightarrow> (unat n + unat (election_distance cfg)) mod unat (consensus_size cfg) = 0"
  using assms by (simp add: IsElection_def word_unat_eq_iff unat_mod unat_add_lem [THEN iffD1])

text \<open>C14: EndBlock's policy reads the window of the round just finished: if the
  configuration is sound and has rounds of more than one block, then for every
  election block \<open>n\<close> after the first round (with \<open>n + ElectionDistance + 1\<close> below
  \<open>2^64\<close>) the block \<open>n + ElectionDistance + 1 - ConsensusSize\<close> is a round start, where
  Confirmed rotates the windows, and no block after it up to \<open>n\<close> is.\<close>

theorem election_after_rotation:
  assumes "cfg_ok cfg" "1 < consensus_size cfg"
    and "IsElection cfg n" "consensus_size cfg < n"
    and "unat n + unat (election_distance cfg) + 1 < 2 ^ 64"
  shows "is_round_start cfg (n + election_distance cfg + 1 - consensus_size cfg)
     \<and> (\<forall>m. n + election_distance cfg + 1 - consensus_size cfg < m \<and> m \<le> n \<longrightarrow> \<not> is_round_start cfg m)"
proof -
  define N where "N = unat n"
  define E where "E = unat (election_distance cfg)"
  define C where "C = unat (consensus_size cfg)"
  have EC: "E < C" using assms(1) by (simp add: cfg_ok_def E_def C_def word_less_nat_alt)
  have C1: "1 < C" using assms(2) by (simp add: C_def word_less_nat_alt)
  have CN: "C < N" using assms(4) by (simp add: C_def N_def word_less_nat_alt)
  have mod0: "(N + E) mod C = 0" using assms(3,5) IsElection_unat [of n cfg] by (simp add: N_def E_def C_def)
  have s: "unat (n + election_distance cfg + 1 - consensus_size cfg) = N + E + 1 - C"
  proof -
    have a0: "unat (n + election_distance cfg) = N + E"
      using assms(5) by (simp add: N_def E_def unat_add_lem [THEN iffD1])
    have a: "unat (n + election_distance cfg + 1) = N + E + 1"
      using assms(5) a0 unat_add_lem [of "n + election_distance cfg" 1] by (simp add: N_def E_def)
    have "consensus_size cfg \<le> n + election_distance cfg + 1"
      using a CN by (simp add: word_le_nat_alt C_def)
    then show ?thesis using a by (simp add: unat_sub C_def)
  qed
  have "(N + E + 1 - C) mod C = 1"
  proof -
    have "N + E + 1 - C + C = N + E + 1" using CN by simp
    then have "(N + E + 1 - C) mod C = (N + E + 1) mod C" by (metis mod_add_self2)
    also have "\<dots> = 1" using mod0 C1 by (simp add: mod_Suc)
    finally show ?thesis .
  qed
  then have start: "is_round_start cfg (n + election_distance cfg + 1 - consensus_size cfg)"
    using CN by (simp add: round_start_unat s C_def)
  have "\<not> is_round_start cfg m" if m: "n + election_distance cfg + 1 - consensus_size cfg < m" "m \<le> n" for m
  proof -
    define d where "d = unat m - (N + E + 1 - C)"
    have d: "1 \<le> d" "d \<le> C - 1" "unat m = (N + E + 1 - C) + d"
      using m EC CN by (auto simp: d_def s word_less_nat_alt word_le_nat_alt N_def)
    have "unat m mod C = (1 + d) mod C"
      using d(3) \<open>(N + E + 1 - C) mod C = 1\<close> by (metis mod_add_left_eq)
    moreover have "(1 + d) mod C \<noteq> 1"
      using d C1 by (cases "1 + d = C") auto
    ultimately show ?thesis by (simp add: round_start_unat C_def)
  qed
  then show ?thesis using start by blast
qed
section \<open>Witnesses\<close>

theorem round_counts_exact_witness:
  "\<exists>db'. confirm_chain small_config scen_sig empty_db [scen_block 11, scen_block 12] = (db', None)
     \<and> (\<forall>n. unat (count0 (cur_counts db' n)) = produced scen_producer [scen_block 11, scen_block 12] n)
     \<and> (\<forall>n. cur_counts db' n = None \<longleftrightarrow> produced scen_producer [scen_block 11, scen_block 12] n = 0)
     \<and> pre_counts db' = cur_counts empty_db
     \<and> counters_wf db' \<and> branch_clean db' \<and> no_fault db'"
  using round_counts_exact [where cfg = small_config and sigToPub = scen_sig and db = empty_db
      and b_start = "scen_block 11" and bs = "[scen_block 12]" and producer = scen_producer]
  by (simp add: scen_block_def parseNodeId_def scen_sig_def scen_producer_def node_A_def
      node_id_len_def is_round_start_def small_config_def)

theorem EndBlock_previous_round_witness:
  "\<exists>db'. confirm_chain small_config scen_sig empty_db
          (scen_block 11 # [scen_block 12] @ scen_block 21 # [scen_block 22]) = (db', None)
     \<and> pre_counts db' = round_window scen_producer (scen_block 11 # [scen_block 12])
     \<and> cur_counts db' = round_window scen_producer (scen_block 21 # [scen_block 22])
     \<and> EndBlock rec_staking small_config db' [] (blk_header (scen_block 28)) scen_ledger =
       (if IsElection small_config (hdr_number (blk_header (scen_block 28)))
           \<and> consensus_size small_config < hdr_number (blk_header (scen_block 28)) then
          (case stk_get_candidate_on_round rec_staking [] (hdr_number (blk_header (scen_block 28))) scen_ledger of
             Inl e \<Rightarrow> (scen_ledger, Some e)
           | Inr vl \<Rightarrow> apply_penalties rec_staking [] (hdr_number (blk_header (scen_block 28))) scen_ledger
                        (low_ratio_penalties small_config (round_window scen_producer (scen_block 11 # [scen_block 12])) vl))
        else (scen_ledger, None))"
  using EndBlock_previous_round [where cfg = small_config and sigToPub = scen_sig and db = empty_db
      and b_prev = "scen_block 11" and bs_prev = "[scen_block 12]" and b_cur = "scen_block 21"
      and bs_cur = "[scen_block 22]" and producer = scen_producer and stk = rec_staking and h = "[]"
      and hdr = "blk_header (scen_block 28)" and st = scen_ledger]
  by (simp add: scen_block_def parseNodeId_def scen_sig_def scen_producer_def node_A_def
      node_id_len_def is_round_start_def small_config_def)

theorem election_after_rotation_witness:
  "is_round_start default_config 251 \<and> \<not> is_round_start default_config 252
   \<and> \<not> is_round_start default_config 400 \<and> \<not> is_round_start default_config 480"
proof -
  have "is_round_start default_config 251
     \<and> (\<forall>m. 251 < m \<and> m \<le> 480 \<longrightarrow> \<not> is_round_start default_config m)"
    using election_after_rotation [of default_config 480]
    by (simp add: cfg_ok_def default_config_def IsElection_def)
  then show ?thesis by simp
qed

end
